theory Spec2Isabelle
  imports Complex_Main "HOL-Library.Word" "HOL-Library.Multiset"
begin

section \<open>Replica placement: the node selectors of master/node\_selector.go\<close>

text \<open>
  A shallow embedding of the four node selectors (RoundRobin, AvailableSpaceFirst,
  CarryWeight, Straw) of \<^verbatim>\<open>master/node_selector.go\<close>.

  Conventions of the embedding.
  \<^item> A \<^verbatim>\<open>*sync.Map\<close> of nodes is the list of its values in the order in which
    \<^verbatim>\<open>Range\<close> visits them; that order is an arbitrary input of every theorem.
  \<^item> \<^verbatim>\<open>uint64\<close> is \<open>64 word\<close>, so \<^verbatim>\<open>Total - Used\<close> wraps as in Go.
  \<^item> Go's \<^verbatim>\<open>int\<close> (\<^verbatim>\<open>replicaNum\<close>) is \<open>int\<close>; the cursor of the round-robin selector only
    grows from 0 by list lengths and is a \<open>nat\<close> (its 64-bit overflow is not modelled).
  \<^item> \<^verbatim>\<open>float64\<close> is exact rational arithmetic (\<open>rat\<close>): rounding, infinities and NaN are
    not modelled. The constants 0.5, 1.0 and 10.0 used below are exact in both.
  \<^item> \<^verbatim>\<open>SelectNodeForWrite\<close> is a hook of the node; the embedding records every invocation
    in a trace (the list of charged nodes, in call order).
  \<^item> The results of \<^verbatim>\<open>sort.Slice\<close> and \<^verbatim>\<open>sort.Sort\<close> (not stable), the draws of the random
    sources and the floating-point straw are inputs, collected in the record \<open>runtime\<close>.
\<close>

subsection \<open>Data model\<close>

datatype NodeResourceType = DataNodeDisk | MetaNodeMemory | MetaNodeRocksdb

datatype StoreMode = StoreModeMem | StoreModeRocksDb

type_synonym uint64 = "64 word"

text \<open>
  The structs \<^verbatim>\<open>DataNode\<close> and \<^verbatim>\<open>MetaNode\<close> are declared outside
  \<^verbatim>\<open>node_selector.go\<close>; the records hold the fields the selectors read. The results of
  the methods \<^verbatim>\<open>canAlloc()\<close>, \<^verbatim>\<open>canAllocDp()\<close>, \<^verbatim>\<open>isWritable(storeMode)\<close>,
  \<^verbatim>\<open>GetRocksdbTotal()\<close> and \<^verbatim>\<open>GetRocksdbUsed()\<close>, whose bodies are not part of the file,
  are fields as well: any behaviour of these methods is covered.
\<close>

record DataNode =
  dn_ID :: uint64
  dn_Addr :: string
  dn_Total :: uint64
  dn_AvailableSpace :: uint64
  dn_canAlloc :: bool
  dn_canAllocDp :: bool

record MetaNode =
  mn_ID :: uint64
  mn_Addr :: string
  mn_Total :: uint64
  mn_Used :: uint64
  mn_RocksdbTotal :: uint64
  mn_RocksdbUsed :: uint64
  mn_isWritableMem :: bool
  mn_isWritableRocksDb :: bool

text \<open>The interface \<^verbatim>\<open>Node\<close>: a pointer to a data node or to a meta node.\<close>

datatype Node = DataNodePtr DataNode | MetaNodePtr MetaNode

fun GetID :: "Node \<Rightarrow> uint64" where
  "GetID (DataNodePtr d) = dn_ID d"
| "GetID (MetaNodePtr m) = mn_ID m"

fun GetAddr :: "Node \<Rightarrow> string" where
  "GetAddr (DataNodePtr d) = dn_Addr d"
| "GetAddr (MetaNodePtr m) = mn_Addr m"

record nodeSet =
  dataNodes :: "DataNode list"
  metaNodes :: "MetaNode list"

text \<open>\<^verbatim>\<open>proto.Peer{ID, Addr}\<close>.\<close>

type_synonym Peer = "uint64 \<times> string"

datatype error =
    ErrNoEnoughHosts int nat
  | ErrNoEnoughWritableHosts int nat
  | ErrReshuffleArray

text \<open>
  \<^verbatim>\<open>getNodes\<close> followed by \<^verbatim>\<open>asNodeWrap\<close>: the nodes of the map that belongs to the
  resource type, each as a \<^verbatim>\<open>Node\<close>. (The \<^verbatim>\<open>default: panic\<close> branches of the switches
  on the resource type are unreachable for the three values of the enumeration.)
\<close>

fun getNodes :: "nodeSet \<Rightarrow> NodeResourceType \<Rightarrow> Node list" where
  "getNodes ns DataNodeDisk = map DataNodePtr (dataNodes ns)"
| "getNodes ns MetaNodeMemory = map MetaNodePtr (metaNodes ns)"
| "getNodes ns MetaNodeRocksdb = map MetaNodePtr (metaNodes ns)"

fun isWritable :: "MetaNode \<Rightarrow> StoreMode \<Rightarrow> bool" where
  "isWritable m StoreModeMem = mn_isWritableMem m"
| "isWritable m StoreModeRocksDb = mn_isWritableRocksDb m"

text \<open>
  \<^verbatim>\<open>canAllocPartition\<close>. The type assertions \<^verbatim>\<open>node.(*DataNode)\<close> and
  \<^verbatim>\<open>node.(*MetaNode)\<close> panic on a node of the other kind; \<open>getNodes\<close> never supplies one,
  and the function is left unspecified there.
\<close>

fun canAllocPartition :: "Node \<Rightarrow> NodeResourceType \<Rightarrow> bool" where
  "canAllocPartition (DataNodePtr dataNode) DataNodeDisk =
     (dn_canAlloc dataNode \<and> dn_canAllocDp dataNode)"
| "canAllocPartition (MetaNodePtr metaNode) MetaNodeMemory = isWritable metaNode StoreModeMem"
| "canAllocPartition (MetaNodePtr metaNode) MetaNodeRocksdb = isWritable metaNode StoreModeRocksDb"

text \<open>
  Modelled from the spec: \<^verbatim>\<open>contains\<close> is a helper of the package that is not part of
  \<^verbatim>\<open>node_selector.go\<close>; the spec reads it as "address in \<^verbatim>\<open>excluded\<close>".
\<close>

definition contains :: "string list \<Rightarrow> string \<Rightarrow> bool" where
  "contains arr element = (element \<in> set arr)"

text \<open>
  Modelled from the spec: \<^verbatim>\<open>reshuffleHosts\<close> is a helper of the package that is not part
  of \<^verbatim>\<open>node_selector.go\<close>. The spec: "Reshuffle must fail only if its input is empty;
  otherwise it returns a permutation of its input", a random one. The random draws are the
  argument \<open>rs\<close>: each draw picks the next host among those left.
\<close>

fun shuffle :: "nat list \<Rightarrow> 'a list \<Rightarrow> 'a list" where
  "shuffle rs [] = []"
| "shuffle [] (x # xs) = x # xs"
| "shuffle (r # rs) (x # xs) =
     (let i = r mod length (x # xs)
      in (x # xs) ! i # shuffle rs (take i (x # xs) @ drop (Suc i) (x # xs)))"

definition reshuffleHosts :: "nat list \<Rightarrow> string list \<Rightarrow> error + string list" where
  "reshuffleHosts rs oldHosts =
     (if oldHosts = [] then Inl ErrReshuffleArray else Inr (shuffle rs oldHosts))"

subsection \<open>The scan shared by RoundRobin and AvailableSpaceFirst\<close>

text \<open>
  Both selectors run the same two nested loops over \<^verbatim>\<open>sortedNodes\<close>; they differ in the
  element they read at position \<^verbatim>\<open>nodeIndex\<close>: \<^verbatim>\<open>sortedNodes[(nodeIndex+s.index)%len]\<close>
  for RoundRobin, \<^verbatim>\<open>sortedNodes[nodeIndex]\<close> for AvailableSpaceFirst. That read is the
  argument \<open>nodeAt\<close>; \<open>len\<close> is \<^verbatim>\<open>len(sortedNodes)\<close>.

  The test of the inner loop: the node can allocate a partition and is not excluded.
\<close>

definition selectable :: "NodeResourceType \<Rightarrow> string list \<Rightarrow> Node \<Rightarrow> bool" where
  "selectable nodeType excludeHosts node =
     (canAllocPartition node nodeType \<and>
      (excludeHosts = [] \<or> \<not> contains excludeHosts (GetAddr node)))"

text \<open>
  The inner loop ("loop until we get a writable node"), from the current \<^verbatim>\<open>nodeIndex\<close>:
  returns the new \<^verbatim>\<open>nodeIndex\<close> and \<^verbatim>\<open>selectedIndex\<close> (\<open>len\<close> when no node was found).
\<close>

function findWritable :: "(nat \<Rightarrow> Node) \<Rightarrow> nat \<Rightarrow> (Node \<Rightarrow> bool) \<Rightarrow> nat \<Rightarrow> nat \<times> nat" where
  "findWritable nodeAt len ok nodeIndex =
     (if nodeIndex < len then
        (if ok (nodeAt nodeIndex) then (nodeIndex + 1, nodeIndex)
         else findWritable nodeAt len ok (nodeIndex + 1))
      else (nodeIndex, len))"
  by pat_completeness auto
termination
  by (relation "measure (\<lambda>(nodeAt, len, ok, nodeIndex). len - nodeIndex)") auto

text \<open>
  The outer loop ("pick first N nodes"): \<open>i\<close> counts the rounds, \<open>picked\<close> are the nodes
  appended so far. Each appended node contributes its address to \<^verbatim>\<open>orderHosts\<close>, a peer
  to \<^verbatim>\<open>peers\<close>, and has \<^verbatim>\<open>SelectNodeForWrite\<close> invoked. Returns the final \<^verbatim>\<open>nodeIndex\<close>
  (the number of nodes examined) and the picked nodes.
\<close>

function pickNodes ::
  "(nat \<Rightarrow> Node) \<Rightarrow> nat \<Rightarrow> (Node \<Rightarrow> bool) \<Rightarrow> int \<Rightarrow> int \<Rightarrow> nat \<Rightarrow> Node list \<Rightarrow> nat \<times> Node list" where
  "pickNodes nodeAt len ok replicaNum i nodeIndex picked =
     (if i < replicaNum \<and> nodeIndex < len then
        (case findWritable nodeAt len ok nodeIndex of
           (nodeIndex', selectedIndex) \<Rightarrow>
             if selectedIndex \<noteq> len
             then pickNodes nodeAt len ok replicaNum (i + 1) nodeIndex' (picked @ [nodeAt selectedIndex])
             else pickNodes nodeAt len ok replicaNum (i + 1) nodeIndex' picked)
      else (nodeIndex, picked))"
  by pat_completeness auto
termination
  by (relation "measure (\<lambda>(nodeAt, len, ok, replicaNum, i, nodeIndex, picked). nat (replicaNum - i))") auto

definition peerOf :: "Node \<Rightarrow> Peer" where
  "peerOf node = (GetID node, GetAddr node)"

text \<open>
  What a call of \<^verbatim>\<open>Select\<close> leaves behind, besides the new state of the selector: the
  returned \<^verbatim>\<open>(newHosts, peers, err)\<close> and the trace of \<^verbatim>\<open>SelectNodeForWrite\<close> invocations.
\<close>

record outcome =
  result :: "error + (string list \<times> Peer list)"
  charged :: "Node list"

subsection \<open>What the Go library decides\<close>

text \<open>The entries CarryWeight sorts (the field \<^verbatim>\<open>ID\<close> of the struct is never used).\<close>

record weightedNode =
  Carry :: rat
  Weight :: rat
  Ptr :: Node

text \<open>
  \<^verbatim>\<open>getNodeAvailableSpace\<close>: the sort key of AvailableSpaceFirst. The three
  \<^verbatim>\<open>prepareCarryFor...\<close> functions of CarryWeight read the same quantity.
\<close>

fun getNodeAvailableSpace :: "NodeResourceType \<Rightarrow> Node \<Rightarrow> uint64" where
  "getNodeAvailableSpace DataNodeDisk (DataNodePtr dataNode) = dn_AvailableSpace dataNode"
| "getNodeAvailableSpace MetaNodeMemory (MetaNodePtr metaNode) = mn_Total metaNode - mn_Used metaNode"
| "getNodeAvailableSpace MetaNodeRocksdb (MetaNodePtr metaNode) =
     mn_RocksdbTotal metaNode - mn_RocksdbUsed metaNode"

text \<open>
  The environment of a call.
  \<^item> \<open>sortByID\<close>, \<open>sortBySpace\<close>, \<open>sortByCarry\<close>: the results of \<^verbatim>\<open>sort.Slice\<close> and
    \<^verbatim>\<open>sort.Sort\<close> in the three selectors that sort (the sorts are not stable, so the order
    among equal keys is the library's choice);
  \<^item> \<open>shuffleDraws\<close>: the draws \<^verbatim>\<open>reshuffleHosts\<close> takes from the global random source;
  \<^item> \<open>strawOf r w\<close>: the \<^verbatim>\<open>float64\<close> value of \<^verbatim>\<open>math.Log(float64(r)/65536) / w\<close>, in any
    linear order \<open>'f\<close> (the values lie in \<open>[-Inf, 0)\<close>: no NaN arises from a draw
    \<open>r < 65536\<close> and a weight \<open>w \<ge> 0\<close>).
\<close>

record 'f runtime =
  sortByID :: "Node list \<Rightarrow> Node list"
  sortBySpace :: "NodeResourceType \<Rightarrow> Node list \<Rightarrow> Node list"
  sortByCarry :: "weightedNode list \<Rightarrow> weightedNode list"
  shuffleDraws :: "nat list"
  strawOf :: "nat \<Rightarrow> rat \<Rightarrow> 'f"

text \<open>
  The contract of a sort with the comparison \<open>lessFn\<close>: the result is a permutation of
  the argument in which no element is \<open>lessFn\<close> an earlier one.
\<close>

definition sortsBy :: "('a \<Rightarrow> 'a \<Rightarrow> bool) \<Rightarrow> ('a list \<Rightarrow> 'a list) \<Rightarrow> bool" where
  "sortsBy lessFn srt =
     (\<forall>xs. mset (srt xs) = mset xs \<and> sorted_wrt (\<lambda>a b. \<not> lessFn b a) (srt xs))"

definition runtime_ok :: "'f runtime \<Rightarrow> bool" where
  "runtime_ok rt =
     (sortsBy (\<lambda>a b. GetID a < GetID b) (sortByID rt) \<and>
      (\<forall>nodeType. sortsBy (\<lambda>a b. getNodeAvailableSpace nodeType a > getNodeAvailableSpace nodeType b)
                     (sortBySpace rt nodeType)) \<and>
      sortsBy (\<lambda>a b. Carry a > Carry b) (sortByCarry rt))"

text \<open>
  The common end of the four \<^verbatim>\<open>Select\<close> methods, reached with the picked nodes (whose
  addresses are \<^verbatim>\<open>orderHosts\<close>, whose peers are \<^verbatim>\<open>peers\<close>, and which have all been
  charged): \<^verbatim>\<open>reshuffleHosts(orderHosts)\<close>, whose error is returned in place of the hosts.
\<close>

definition reshuffled :: "'f runtime \<Rightarrow> Node list \<Rightarrow> outcome" where
  "reshuffled rt picked =
     \<lparr>result = (case reshuffleHosts (shuffleDraws rt) (map GetAddr picked) of
                  Inl e \<Rightarrow> Inl e
                | Inr newHosts \<Rightarrow> Inr (newHosts, map peerOf picked)),
       charged = picked\<rparr>"

subsection \<open>RoundRobinNodeSelector\<close>

record RoundRobinNodeSelector =
  rr_index :: nat
  rr_nodeType :: NodeResourceType

text \<open>
  \<^verbatim>\<open>RoundRobinNodeSelector.Select\<close>. The third component of the result is the final value
  of \<^verbatim>\<open>nodeIndex\<close>, the number of nodes the call examined.
\<close>

definition RoundRobin_Select ::
  "'f runtime \<Rightarrow> RoundRobinNodeSelector \<Rightarrow> nodeSet \<Rightarrow> string list \<Rightarrow> int
     \<Rightarrow> RoundRobinNodeSelector \<times> outcome \<times> nat" where
  "RoundRobin_Select rt s ns excludeHosts replicaNum =
     (if replicaNum = 0 then (s, \<lparr>result = Inr ([], []), charged = []\<rparr>, 0)
      else
        let nodes = getNodes ns (rr_nodeType s) in
        if int (length nodes) < replicaNum
        then (s, \<lparr>result = Inl (ErrNoEnoughWritableHosts replicaNum (length nodes)),
                  charged = []\<rparr>, 0)
        else
          let sortedNodes = sortByID rt nodes;
              len = length sortedNodes;
              (nodeIndex, picked) =
                 pickNodes (\<lambda>k. sortedNodes ! ((k + rr_index s) mod len)) len
                   (selectable (rr_nodeType s) excludeHosts) replicaNum 0 0 [];
              orderHosts = map GetAddr picked
          in
            if int (length orderHosts) < replicaNum
            then (s, \<lparr>result = Inl (ErrNoEnoughWritableHosts replicaNum (length orderHosts)),
                      charged = picked\<rparr>, nodeIndex)
            else
              (s\<lparr>rr_index := rr_index s + nodeIndex\<rparr>, reshuffled rt picked, nodeIndex))"

subsection \<open>AvailableSpaceFirstNodeSelector\<close>

record AvailableSpaceFirstNodeSelector =
  asf_nodeType :: NodeResourceType

definition AvailableSpaceFirst_Select ::
  "'f runtime \<Rightarrow> AvailableSpaceFirstNodeSelector \<Rightarrow> nodeSet \<Rightarrow> string list \<Rightarrow> int \<Rightarrow> outcome" where
  "AvailableSpaceFirst_Select rt s ns excludeHosts replicaNum =
     (if replicaNum = 0 then \<lparr>result = Inr ([], []), charged = []\<rparr>
      else
        let nodes = getNodes ns (asf_nodeType s) in
        if int (length nodes) < replicaNum
        then \<lparr>result = Inl (ErrNoEnoughHosts replicaNum (length nodes)), charged = []\<rparr>
        else
          let sortedNodes = sortBySpace rt (asf_nodeType s) nodes;
              (nodeIndex, picked) =
                 pickNodes (\<lambda>k. sortedNodes ! k) (length sortedNodes)
                   (selectable (asf_nodeType s) excludeHosts) replicaNum 0 0 [];
              orderHosts = map GetAddr picked
          in
            if int (length orderHosts) < replicaNum
            then \<lparr>result = Inl (ErrNoEnoughWritableHosts replicaNum (length orderHosts)),
                  charged = picked\<rparr>
            else
              reshuffled rt picked)"

subsection \<open>CarryWeightNodeSelector\<close>

type_synonym carryMap = "uint64 \<rightharpoonup> rat"

record CarryWeightNodeSelector =
  cw_nodeType :: NodeResourceType
  cw_carry :: carryMap

text \<open>Reading a Go map: the zero value for a missing key.\<close>

definition carryAt :: "carryMap \<Rightarrow> uint64 \<Rightarrow> rat" where
  "carryAt carry k = (case carry k of None \<Rightarrow> 0 | Some c \<Rightarrow> c)"

text \<open>
  The conversion \<^verbatim>\<open>float64(x)\<close> of a \<^verbatim>\<open>uint64\<close>. A quotient by \<^verbatim>\<open>float64(0)\<close> is +Inf or
  NaN in Go and 0 in \<open>rat\<close>: the embedding says nothing about node-sets whose largest
  total is 0.
\<close>

definition float64 :: "uint64 \<Rightarrow> rat" where
  "float64 x = of_nat (unat x)"

text \<open>The field the three \<^verbatim>\<open>getTotalMaxFor...\<close> functions maximise.\<close>

fun nodeTotal :: "NodeResourceType \<Rightarrow> Node \<Rightarrow> uint64" where
  "nodeTotal DataNodeDisk (DataNodePtr dataNode) = dn_Total dataNode"
| "nodeTotal MetaNodeMemory (MetaNodePtr metaNode) = mn_Total metaNode"
| "nodeTotal MetaNodeRocksdb (MetaNodePtr metaNode) = mn_RocksdbTotal metaNode"

definition getTotalMax :: "NodeResourceType \<Rightarrow> Node list \<Rightarrow> uint64" where
  "getTotalMax nodeType nodes =
     foldl (\<lambda>totalMax node. if nodeTotal nodeType node > totalMax then nodeTotal nodeType node else totalMax)
       0 nodes"

text \<open>\<^verbatim>\<open>prepareCarry\<close>: a node seen for the first time starts at free space / totalMax.\<close>

definition prepareCarry :: "NodeResourceType \<Rightarrow> carryMap \<Rightarrow> Node list \<Rightarrow> uint64 \<Rightarrow> carryMap" where
  "prepareCarry nodeType carry nodes totalMax =
     foldl (\<lambda>c node.
              if c (GetID node) = None
              then c(GetID node \<mapsto> float64 (getNodeAvailableSpace nodeType node) / float64 totalMax)
              else c)
       carry nodes"

text \<open>
  \<^verbatim>\<open>getCarryDataNodes\<close> and \<^verbatim>\<open>getCarryMetaNodes\<close>: the filter each applies to a node, the
  weight each gives it (the meta variant uses \<^verbatim>\<open>Total - Used\<close> for both store modes), and
  the list with the count of entries whose carry is at least 1.0.
\<close>

fun carryCandidate :: "NodeResourceType \<Rightarrow> string list \<Rightarrow> Node \<Rightarrow> bool" where
  "carryCandidate DataNodeDisk excludeHosts (DataNodePtr dataNode) =
     (\<not> contains excludeHosts (dn_Addr dataNode) \<and> dn_canAllocDp dataNode \<and> dn_canAlloc dataNode)"
| "carryCandidate MetaNodeMemory excludeHosts (MetaNodePtr metaNode) =
     (\<not> contains excludeHosts (mn_Addr metaNode) \<and> isWritable metaNode StoreModeMem)"
| "carryCandidate MetaNodeRocksdb excludeHosts (MetaNodePtr metaNode) =
     (\<not> contains excludeHosts (mn_Addr metaNode) \<and> isWritable metaNode StoreModeRocksDb)"

fun carryWeight :: "NodeResourceType \<Rightarrow> Node \<Rightarrow> uint64 \<Rightarrow> rat" where
  "carryWeight DataNodeDisk (DataNodePtr dataNode) maxTotal =
     float64 (dn_AvailableSpace dataNode) / float64 maxTotal"
| "carryWeight MetaNodeMemory (MetaNodePtr metaNode) maxTotal =
     float64 (mn_Total metaNode - mn_Used metaNode) / float64 maxTotal"
| "carryWeight MetaNodeRocksdb (MetaNodePtr metaNode) maxTotal =
     float64 (mn_Total metaNode - mn_Used metaNode) / float64 maxTotal"

fun getCarryNodes ::
  "NodeResourceType \<Rightarrow> carryMap \<Rightarrow> uint64 \<Rightarrow> string list \<Rightarrow> Node list \<Rightarrow> weightedNode list \<times> nat" where
  "getCarryNodes nodeType carry maxTotal excludeHosts [] = ([], 0)"
| "getCarryNodes nodeType carry maxTotal excludeHosts (node # rest) =
     (case getCarryNodes nodeType carry maxTotal excludeHosts rest of
        (nodeTabs, availCount) \<Rightarrow>
          if carryCandidate nodeType excludeHosts node
          then (\<lparr>Carry = carryAt carry (GetID node),
                 Weight = carryWeight nodeType node maxTotal,
                 Ptr = node\<rparr> # nodeTabs,
                if carryAt carry (GetID node) \<ge> 1 then availCount + 1 else availCount)
          else (nodeTabs, availCount))"

text \<open>
  One pass of the inner \<^verbatim>\<open>for _, nt := range nodes\<close> of \<^verbatim>\<open>setNodeCarry\<close>: the entries
  with their new carry, the carry map, and the fresh \<^verbatim>\<open>availCarryCount\<close>.
\<close>

fun advanceCarry :: "carryMap \<Rightarrow> weightedNode list \<Rightarrow> weightedNode list \<times> carryMap \<times> nat" where
  "advanceCarry carryMap [] = ([], carryMap, 0)"
| "advanceCarry carryMap (nt # rest) =
     (let carry = Carry nt + Weight nt;
          carry = (if carry > 10 then 10 else carry)
      in case advanceCarry (carryMap(GetID (Ptr nt) \<mapsto> carry)) rest of
           (rest', carryMap', availCarryCount) \<Rightarrow>
             (nt\<lparr>Carry := carry\<rparr> # rest', carryMap',
              if carry > 1 then availCarryCount + 1 else availCarryCount))"

text \<open>
  \<^verbatim>\<open>setNodeCarry\<close>: the loop \<^verbatim>\<open>for availCarryCount < replicaNum\<close>. It need not end, so
  the result is an option: \<open>None\<close> is a loop that runs forever.
\<close>

partial_function (option) setNodeCarry ::
  "carryMap \<Rightarrow> weightedNode list \<Rightarrow> int \<Rightarrow> int \<Rightarrow> (weightedNode list \<times> carryMap) option" where
  "setNodeCarry carryMap nodes availCarryCount replicaNum =
     (if availCarryCount < replicaNum then
        (case advanceCarry carryMap nodes of
           (nodes', carryMap', availCarryCount') \<Rightarrow>
             setNodeCarry carryMap' nodes' (int availCarryCount') replicaNum)
      else Some (nodes, carryMap))"

text \<open>\<^verbatim>\<open>selectNodeForWrite\<close> on the carry map: the carry of the node drops by 1.0.\<close>

definition decreaseCarry :: "carryMap \<Rightarrow> Node \<Rightarrow> carryMap" where
  "decreaseCarry carry node = carry(GetID node \<mapsto> carryAt carry (GetID node) - 1)"

definition CarryWeight_Select ::
  "'f runtime \<Rightarrow> CarryWeightNodeSelector \<Rightarrow> nodeSet \<Rightarrow> string list \<Rightarrow> int
     \<Rightarrow> (CarryWeightNodeSelector \<times> outcome) option" where
  "CarryWeight_Select rt s ns excludeHosts replicaNum =
     (let nodes = getNodes ns (cw_nodeType s);
          totalMax = getTotalMax (cw_nodeType s) nodes;
          carry1 = prepareCarry (cw_nodeType s) (cw_carry s) nodes totalMax
      in
        if replicaNum = 0
        then Some (s\<lparr>cw_carry := carry1\<rparr>, \<lparr>result = Inr ([], []), charged = []\<rparr>)
        else
          case getCarryNodes (cw_nodeType s) carry1 totalMax excludeHosts nodes of
            (weightedNodes, availCount) \<Rightarrow>
              if int (length weightedNodes) < replicaNum
              then Some (s\<lparr>cw_carry := carry1\<rparr>,
                         \<lparr>result = Inl (ErrNoEnoughWritableHosts replicaNum (length weightedNodes)),
                          charged = []\<rparr>)
              else
                case setNodeCarry carry1 weightedNodes (int availCount) replicaNum of
                  None \<Rightarrow> None
                | Some (weightedNodes', carry2) \<Rightarrow>
                    let picked = map Ptr (take (nat replicaNum) (sortByCarry rt weightedNodes'));
                        carry3 = foldl decreaseCarry carry2 picked
                    in Some (s\<lparr>cw_carry := carry3\<rparr>, reshuffled rt picked))"

subsection \<open>StrawNodeSelector\<close>

definition StrawNodeSelectorRandMax :: nat where
  "StrawNodeSelectorRandMax = 65536"

text \<open>
  The selector's own random source: the sequence of its future outputs. \<^verbatim>\<open>Intn(n)\<close> takes
  the head reduced to \<open>[0, n)\<close>.
\<close>

record StrawNodeSelector =
  st_rand :: "nat \<Rightarrow> nat"
  st_nodeType :: NodeResourceType

text \<open>
  Modelled from the spec: the constant \<^verbatim>\<open>util.GB\<close> is declared outside
  \<^verbatim>\<open>node_selector.go\<close>; the spec has the weight as "the free capacity in gigabytes".
\<close>

definition GB :: rat where
  "GB = 2 ^ 30"

fun getWeight :: "NodeResourceType \<Rightarrow> Node \<Rightarrow> rat" where
  "getWeight DataNodeDisk (DataNodePtr dataNode) = float64 (dn_AvailableSpace dataNode) / GB"
| "getWeight MetaNodeMemory (MetaNodePtr metaNode) =
     float64 (mn_Total metaNode - mn_Used metaNode) / GB"
| "getWeight MetaNodeRocksdb (MetaNodePtr metaNode) =
     float64 (mn_RocksdbTotal metaNode - mn_RocksdbUsed metaNode) / GB"

text \<open>
  The loop of \<^verbatim>\<open>selectOneNode\<close> from position \<open>i\<close>, with the loop variables
  \<^verbatim>\<open>maxStraw\<close>, \<^verbatim>\<open>index\<close> and \<^verbatim>\<open>maxNode\<close> (\<open>None\<close> is \<^verbatim>\<open>nil\<close>).
\<close>

fun selectOneNode_from ::
  "(nat \<Rightarrow> rat \<Rightarrow> 'f::{linorder,zero}) \<Rightarrow> NodeResourceType \<Rightarrow> Node list \<Rightarrow> nat \<Rightarrow> (nat \<Rightarrow> nat)
     \<Rightarrow> 'f \<Rightarrow> int \<Rightarrow> Node option \<Rightarrow> int \<times> Node option \<times> (nat \<Rightarrow> nat)" where
  "selectOneNode_from strw nodeType [] i rand maxStraw index maxNode = (index, maxNode, rand)"
| "selectOneNode_from strw nodeType (node # rest) i rand maxStraw index maxNode =
     (let straw = strw (rand 0 mod StrawNodeSelectorRandMax) (getWeight nodeType node);
          rand' = (\<lambda>k. rand (Suc k))
      in if index = - 1 \<or> straw > maxStraw
         then selectOneNode_from strw nodeType rest (i + 1) rand' straw (int i) (Some node)
         else selectOneNode_from strw nodeType rest (i + 1) rand' maxStraw index maxNode)"

definition selectOneNode ::
  "(nat \<Rightarrow> rat \<Rightarrow> 'f::{linorder,zero}) \<Rightarrow> NodeResourceType \<Rightarrow> (nat \<Rightarrow> nat) \<Rightarrow> Node list
     \<Rightarrow> int \<times> Node option \<times> (nat \<Rightarrow> nat)" where
  "selectOneNode strw nodeType rand nodes = selectOneNode_from strw nodeType nodes 0 rand 0 (- 1) None"

text \<open>
  The loop \<^verbatim>\<open>for len(orderHosts) < replicaNum\<close> of \<^verbatim>\<open>StrawNodeSelector.Select\<close>. The
  branch \<open>None\<close> stands for \<^verbatim>\<open>selectOneNode\<close> on an empty slice, where Go would panic at
  \<^verbatim>\<open>nodes[0]\<close>; the two tests before the call exclude it.
\<close>

function strawLoop ::
  "(nat \<Rightarrow> rat \<Rightarrow> 'f::{linorder,zero}) \<Rightarrow> NodeResourceType \<Rightarrow> int \<Rightarrow> (nat \<Rightarrow> nat) \<Rightarrow> Node list
     \<Rightarrow> Node list \<Rightarrow> (nat \<Rightarrow> nat) \<times> Node list" where
  "strawLoop strw nodeType replicaNum rand nodes picked =
     (if int (length picked) < replicaNum then
        (if int (length nodes) + int (length picked) < replicaNum then (rand, picked)
         else
           case selectOneNode strw nodeType rand nodes of
             (index, None, rand') \<Rightarrow> (rand', picked)
           | (index, Some node, rand') \<Rightarrow>
               let nodes1 = (if index \<noteq> 0 then nodes[0 := node, nat index := nodes ! 0] else nodes);
                   nodes2 = drop 1 nodes1
               in if \<not> canAllocPartition node nodeType
                  then strawLoop strw nodeType replicaNum rand' nodes2 picked
                  else strawLoop strw nodeType replicaNum rand' nodes2 (picked @ [node]))
      else (rand, picked))"
  by pat_completeness auto
termination
  by (relation "measure (\<lambda>(strw, nodeType, replicaNum, rand, nodes, picked). length nodes)") auto


subsection \<open>The interface NodeSelector\<close>

datatype NodeSelector =
    RoundRobin RoundRobinNodeSelector
  | AvailableSpaceFirst AvailableSpaceFirstNodeSelector
  | CarryWeight CarryWeightNodeSelector
  | Straw StrawNodeSelector


text \<open>The resource type a selector is bound to.\<close>

fun nodeTypeOf :: "NodeSelector \<Rightarrow> NodeResourceType" where
  "nodeTypeOf (RoundRobin s) = rr_nodeType s"
| "nodeTypeOf (AvailableSpaceFirst s) = asf_nodeType s"
| "nodeTypeOf (CarryWeight s) = cw_nodeType s"
| "nodeTypeOf (Straw s) = st_nodeType s"

subsection \<open>Notions used in the proofs about CarryWeight\<close>

text \<open>
  \<open>advanced nt\<close> is the entry \<open>nt\<close> after one pass of the advancement loop;
  \<open>passesNeeded nt\<close> bounds the number of passes after which its carry exceeds 1 (for a
  positive weight).
\<close>

definition advanced :: "weightedNode \<Rightarrow> weightedNode" where
  "advanced nt = nt\<lparr>Carry := (if Carry nt + Weight nt > 10 then 10 else Carry nt + Weight nt)\<rparr>"

definition passesNeeded :: "weightedNode \<Rightarrow> nat" where
  "passesNeeded nt = (if Carry nt > 1 then 0 else nat \<lfloor>(1 - Carry nt) / Weight nt\<rfloor> + 1)"

text \<open>
  An entry is \<open>live\<close> when some pass of the advancement loop counts it: its weight is
  positive, or its carry is above 1 already. \<open>prepared\<close> is the carry map after
  \<^verbatim>\<open>prepareCarry\<close>, and \<open>candidates\<close> the list and the count that \<^verbatim>\<open>Select\<close> gets from
  \<^verbatim>\<open>getCarryNodes\<close>.
\<close>

definition live :: "weightedNode \<Rightarrow> bool" where
  "live nt = (0 < Weight nt \<or> 1 < Carry nt)"



subsection \<open>The number of nodes a scan examines, in the spec's words\<close>

text \<open>
  The spec (4.3, steps 3 and 4): "scan forward, examining each node at most once [...]
  Stop after \<open>N\<close> emissions or after scanning all \<open>|S|\<close> nodes". In these words, the
  number of nodes examined in the scan order \<open>ys\<close> is the length of the shortest prefix of
  \<open>ys\<close> that holds \<open>n\<close> selectable nodes, and the length of \<open>ys\<close> when there is none. It
  is defined on the list alone, not by the loops of the code.
\<close>

fun examinedUntil :: "('a \<Rightarrow> bool) \<Rightarrow> 'a list \<Rightarrow> nat \<Rightarrow> nat" where
  "examinedUntil ok ys 0 = 0"
| "examinedUntil ok [] (Suc n) = 0"
| "examinedUntil ok (y # ys) (Suc n) =
     Suc (if ok y then examinedUntil ok ys n else examinedUntil ok ys (Suc n))"

subsection \<open>Concrete inputs\<close>

text \<open>
  A runtime whose sorts are insertion sorts, and small node-sets, on which the theorems
  below are instantiated.
\<close>

definition testRuntime :: "nat list \<Rightarrow> rat runtime" where
  "testRuntime draws =
     \<lparr>sortByID = sort_key GetID,
      sortBySpace = (\<lambda>nodeType nodes. rev (sort_key (getNodeAvailableSpace nodeType) nodes)),
      sortByCarry = (\<lambda>nodes. rev (sort_key Carry nodes)),
      shuffleDraws = draws,
      strawOf = (\<lambda>r w. (of_nat r - 65536) * (1 + w))\<rparr>"

definition mkDataNode :: "nat \<Rightarrow> string \<Rightarrow> nat \<Rightarrow> nat \<Rightarrow> bool \<Rightarrow> DataNode" where
  "mkDataNode i addr tot avail writable =
     \<lparr>dn_ID = of_nat i, dn_Addr = addr, dn_Total = of_nat tot, dn_AvailableSpace = of_nat avail,
      dn_canAlloc = True, dn_canAllocDp = writable\<rparr>"

definition dataSet :: "DataNode list \<Rightarrow> nodeSet" where
  "dataSet ds = \<lparr>dataNodes = ds, metaNodes = []\<rparr>"

definition rrStart :: RoundRobinNodeSelector where
  "rrStart = \<lparr>rr_index = 0, rr_nodeType = DataNodeDisk\<rparr>"

definition oneWritableOfTwo :: nodeSet where
  "oneWritableOfTwo = dataSet [mkDataNode 1 ''a'' 100 50 True, mkDataNode 2 ''b'' 100 50 False]"

definition fourNodesTwoWritable :: nodeSet where
  "fourNodesTwoWritable =
     dataSet [mkDataNode 1 ''a'' 100 50 True, mkDataNode 2 ''b'' 100 50 False,
              mkDataNode 3 ''c'' 100 50 False, mkDataNode 4 ''d'' 100 50 True]"

definition fiveNodes :: nodeSet where
  "fiveNodes =
     dataSet [mkDataNode 3 ''n3'' 200 80 True, mkDataNode 1 ''n1'' 200 100 True,
              mkDataNode 5 ''n5'' 200 60 True, mkDataNode 2 ''n2'' 200 90 True,
              mkDataNode 4 ''n4'' 200 70 True]"

definition asfData :: AvailableSpaceFirstNodeSelector where
  "asfData = \<lparr>asf_nodeType = DataNodeDisk\<rparr>"

definition fiveNodesFourWritable :: nodeSet where
  "fiveNodesFourWritable =
     dataSet [mkDataNode 1 ''a'' 100 50 True, mkDataNode 2 ''b'' 100 50 False,
              mkDataNode 3 ''c'' 100 50 True, mkDataNode 4 ''d'' 100 50 True,
              mkDataNode 5 ''e'' 100 50 True]"

definition fiveNodesReordered :: nodeSet where
  "fiveNodesReordered =
     dataSet [mkDataNode 4 ''d'' 100 50 True, mkDataNode 1 ''a'' 100 50 True,
              mkDataNode 5 ''e'' 100 50 True, mkDataNode 3 ''c'' 100 50 True,
              mkDataNode 2 ''b'' 100 50 False]"

definition mkMetaNode :: "nat \<Rightarrow> string \<Rightarrow> nat \<Rightarrow> nat \<Rightarrow> bool \<Rightarrow> MetaNode" where
  "mkMetaNode i addr tot used writable =
     \<lparr>mn_ID = of_nat i, mn_Addr = addr, mn_Total = of_nat tot, mn_Used = of_nat used,
      mn_RocksdbTotal = 0, mn_RocksdbUsed = 0,
      mn_isWritableMem = writable, mn_isWritableRocksDb = False\<rparr>"

definition cwStart :: CarryWeightNodeSelector where
  "cwStart = \<lparr>cw_nodeType = DataNodeDisk, cw_carry = Map.empty\<rparr>"



definition halfFree :: nodeSet where
  "halfFree = dataSet [mkDataNode 1 ''a'' 2 1 True]"


definition halfHalf :: weightedNode where
  "halfHalf = \<lparr>Carry = 1 / 2, Weight = 1 / 2, Ptr = DataNodePtr (mkDataNode 1 ''a'' 2 1 True)\<rparr>"


section \<open>Properties\<close>

subsection \<open>Auxiliary facts\<close>

declare findWritable.simps [simp del] pickNodes.simps [simp del] strawLoop.simps [simp del]

lemma findWritable_filter:
  "findWritable nodeAt len ok k = (k', sel) \<Longrightarrow> k \<le> len \<Longrightarrow>
     (if sel \<noteq> len
      then k' = Suc sel \<and> k \<le> sel \<and> sel < len \<and> ok (nodeAt sel)
           \<and> filter ok (map nodeAt [k..<sel]) = []
      else k' = len \<and> filter ok (map nodeAt [k..<len]) = [])"
proof (induction nodeAt len ok k rule: findWritable.induct)
  case (1 nodeAt len ok nodeIndex)
  show ?case
  proof (cases "nodeIndex < len")
    case False
    with "1.prems" show ?thesis by (simp add: findWritable.simps[of nodeAt len ok nodeIndex])
  next
    case lt: True
    show ?thesis
    proof (cases "ok (nodeAt nodeIndex)")
      case True
      with lt "1.prems" show ?thesis by (auto simp: findWritable.simps[of nodeAt len ok nodeIndex])
    next
      case False
      with lt "1.prems" have rec: "findWritable nodeAt len ok (nodeIndex + 1) = (k', sel)"
        by (simp add: findWritable.simps[of nodeAt len ok nodeIndex])
      have le: "nodeIndex + 1 \<le> len" using lt by simp
      note ih = "1.IH"[OF lt False rec le]
      show ?thesis
      proof (cases "sel \<noteq> len")
        case True
        with ih have a: "k' = Suc sel" "nodeIndex + 1 \<le> sel" "sel < len" "ok (nodeAt sel)"
          "filter ok (map nodeAt [nodeIndex + 1..<sel]) = []" by simp_all
        have "[nodeIndex..<sel] = nodeIndex # [nodeIndex + 1..<sel]"
          using a(2) by (simp add: upt_conv_Cons)
        with a False True show ?thesis by simp
      next
        case sel: False
        with ih have a: "k' = len" "filter ok (map nodeAt [nodeIndex + 1..<len]) = []" by simp_all
        have "[nodeIndex..<len] = nodeIndex # [nodeIndex + 1..<len]"
          using lt by (simp add: upt_conv_Cons)
        with a False sel show ?thesis by simp
      qed
    qed
  qed
qed

lemma upt_split3: "k \<le> s \<Longrightarrow> s < k' \<Longrightarrow> [k..<k'] = [k..<s] @ s # [Suc s..<k']"
  by (metis le_add_diff_inverse less_imp_le_nat upt_add_eq_append upt_conv_Cons)

lemma pickNodes_spec:
  "pickNodes nodeAt len ok N i k picked = (k', picked') \<Longrightarrow> k \<le> len \<Longrightarrow>
     k \<le> k' \<and> k' \<le> len \<and> picked' = picked @ filter ok (map nodeAt [k..<k']) \<and>
     int (length (filter ok (map nodeAt [k..<k']))) \<le> max 0 (N - i) \<and>
     (int (length (filter ok (map nodeAt [k..<k']))) < N - i \<longrightarrow> k' = len)"
proof (induction nodeAt len ok N i k picked rule: pickNodes.induct)
  case (1 nodeAt len ok N i k picked)
  show ?case
  proof (cases "i < N \<and> k < len")
    case False
    with "1.prems" show ?thesis by (auto simp: pickNodes.simps[of nodeAt len ok N i k picked])
  next
    case go: True
    obtain k1 sel where fw: "findWritable nodeAt len ok k = (k1, sel)"
      by (cases "findWritable nodeAt len ok k")
    note f = findWritable_filter[OF fw "1.prems"(2)]
    show ?thesis
    proof (cases "sel \<noteq> len")
      case True
      with f have a: "k1 = Suc sel" "k \<le> sel" "sel < len" "ok (nodeAt sel)"
        "filter ok (map nodeAt [k..<sel]) = []" by simp_all
      from go fw True "1.prems"(1)
      have rec: "pickNodes nodeAt len ok N (i + 1) k1 (picked @ [nodeAt sel]) = (k', picked')"
        by (simp add: pickNodes.simps[of nodeAt len ok N i k picked])
      have k1: "k1 \<le> len" using a by simp
      note ih = "1.IH"(1)[OF go fw[symmetric] True rec k1]
      have lt: "sel < k'" using ih a by simp
      have "filter ok (map nodeAt [k..<k']) = nodeAt sel # filter ok (map nodeAt [k1..<k'])"
        using a by (simp add: upt_split3[OF a(2) lt])
      with ih a go show ?thesis by auto
    next
      case False
      with f have a: "k1 = len" "filter ok (map nodeAt [k..<len]) = []" by simp_all
      from go fw False "1.prems"(1)
      have rec: "pickNodes nodeAt len ok N (i + 1) k1 picked = (k', picked')"
        by (simp add: pickNodes.simps[of nodeAt len ok N i k picked])
      have k1: "k1 \<le> len" using a by simp
      have eq: "\<not> sel \<noteq> len" using False by simp
      note ih = "1.IH"(2)[OF go fw[symmetric] eq rec k1]
      from ih a have "k' = len" "picked' = picked" by auto
      with a go show ?thesis by auto
    qed
  qed
qed

lemma mset_pick_nth:
  "i < length xs \<Longrightarrow> mset (xs ! i # take i xs @ drop (Suc i) xs) = mset xs"
proof -
  assume "i < length xs"
  then have "xs = take i xs @ xs ! i # drop (Suc i) xs" by (rule id_take_nth_drop)
  then have "mset xs = mset (take i xs @ xs ! i # drop (Suc i) xs)" by simp
  then show ?thesis by simp
qed

lemma mset_shuffle: "mset (shuffle rs xs) = mset xs"
proof (induction rs xs rule: shuffle.induct)
  case (3 r rs x xs)
  let ?ys = "x # xs"
  let ?i = "r mod length ?ys"
  have i: "?i < length ?ys" by simp
  have "mset (shuffle (r # rs) ?ys) = mset (?ys ! ?i # take ?i ?ys @ drop (Suc ?i) ?ys)"
    using "3.IH"[OF refl] by (simp add: Let_def del: take_Cons' drop_Suc_Cons nth_Cons')
  also have "\<dots> = mset ?ys" by (rule mset_pick_nth[OF i])
  finally show ?case .
qed simp_all

lemma reshuffleHosts_Inr:
  "reshuffleHosts rs hosts = Inr newHosts \<Longrightarrow> hosts \<noteq> [] \<and> mset newHosts = mset hosts"
  by (auto simp: reshuffleHosts_def mset_shuffle split: if_splits)

lemma reshuffleHosts_Inl:
  "reshuffleHosts rs hosts = Inl e \<Longrightarrow> hosts = [] \<and> e = ErrReshuffleArray"
  by (auto simp: reshuffleHosts_def split: if_splits)

lemma sortsBy_mset: "sortsBy lessFn srt \<Longrightarrow> mset (srt xs) = mset xs"
  by (simp add: sortsBy_def)

lemma sortsBy_set: "sortsBy lessFn srt \<Longrightarrow> set (srt xs) = set xs"
  by (metis sortsBy_mset set_mset_mset)

lemma sortsBy_length: "sortsBy lessFn srt \<Longrightarrow> length (srt xs) = length xs"
  by (metis sortsBy_mset size_mset)

lemma sortsBy_sorted: "sortsBy lessFn srt \<Longrightarrow> sorted_wrt (\<lambda>a b. \<not> lessFn b a) (srt xs)"
  by (simp add: sortsBy_def)

lemma mset_map_distinct:
  "mset ys = mset xs \<Longrightarrow> distinct (map f xs) \<Longrightarrow> distinct (map f ys)"
  by (metis mset_map mset_eq_imp_distinct_iff)

lemma map_nodeAt_rotate:
  assumes "e \<le> length xs"
  shows "map (\<lambda>k. xs ! ((k + c) mod length xs)) [0..<e] = take e (rotate c xs)"
proof (rule nth_equalityI)
  show "length (map (\<lambda>k. xs ! ((k + c) mod length xs)) [0..<e]) = length (take e (rotate c xs))"
    using assms by simp
next
  fix i assume "i < length (map (\<lambda>k. xs ! ((k + c) mod length xs)) [0..<e])"
  then have i: "i < e" by simp
  then have "i < length xs" using assms by simp
  then have "rotate c xs ! i = xs ! ((c + i) mod length xs)" by (rule nth_rotate)
  then show "map (\<lambda>k. xs ! ((k + c) mod length xs)) [0..<e] ! i = take e (rotate c xs) ! i"
    using i by (simp add: add.commute)
qed

lemma map_nodeAt_take:
  "e \<le> length xs \<Longrightarrow> map (\<lambda>k. xs ! k) [0..<e] = take e xs"
  by (rule nth_equalityI) simp_all

lemma pickNodes_start:
  assumes "pickNodes nodeAt len ok N 0 0 [] = (e, picked)"
  shows "e \<le> len" and "picked = filter ok (map nodeAt [0..<e])"
    and "int (length picked) \<le> max 0 N" and "int (length picked) < N \<Longrightarrow> e = len"
  using pickNodes_spec[OF assms] by auto

lemma sortsBy_sort_key: "sortsBy (\<lambda>a b. f a < f b) (sort_key f)"
proof -
  have "sorted_wrt (\<lambda>a b. \<not> f b < f a) (sort_key f xs)" for xs
  proof -
    have "sorted (map f (sort_key f xs))" by (rule sorted_sort_key)
    then have "sorted_wrt (\<lambda>x y. f x \<le> f y) (sort_key f xs)" by (simp add: sorted_map)
    then show ?thesis by (rule sorted_wrt_mono_rel[rotated]) auto
  qed
  then show ?thesis by (simp add: sortsBy_def)
qed

lemma sortsBy_rev_sort_key: "sortsBy (\<lambda>a b. f a > f b) (\<lambda>xs. rev (sort_key f xs))"
proof -
  have "sorted_wrt (\<lambda>a b. \<not> f b > f a) (rev (sort_key f xs))" for xs
  proof -
    have "sorted (map f (sort_key f xs))" by (rule sorted_sort_key)
    then have "sorted_wrt (\<lambda>x y. f x \<le> f y) (sort_key f xs)" by (simp add: sorted_map)
    then have "sorted_wrt (\<lambda>x y. \<not> f x > f y) (sort_key f xs)"
      by (rule sorted_wrt_mono_rel[rotated]) auto
    then show ?thesis by (simp add: sorted_wrt_rev)
  qed
  then show ?thesis by (simp add: sortsBy_def)
qed

lemma runtime_ok_testRuntime: "runtime_ok (testRuntime draws)"
  by (simp add: runtime_ok_def testRuntime_def sortsBy_sort_key sortsBy_rev_sort_key)

lemma runtime_ok_byID: "runtime_ok rt \<Longrightarrow> sortsBy (\<lambda>a b. GetID a < GetID b) (sortByID rt)"
  by (simp add: runtime_ok_def)

lemma runtime_ok_bySpace:
  "runtime_ok rt \<Longrightarrow>
   sortsBy (\<lambda>a b. getNodeAvailableSpace nodeType a > getNodeAvailableSpace nodeType b)
     (sortBySpace rt nodeType)"
  by (simp add: runtime_ok_def)

lemma runtime_ok_byCarry: "runtime_ok rt \<Longrightarrow> sortsBy (\<lambda>a b. Carry a > Carry b) (sortByCarry rt)"
  by (simp add: runtime_ok_def)

lemma reshuffled_Inr:
  "result (reshuffled rt picked) = Inr (newHosts, peers) \<Longrightarrow>
     picked \<noteq> [] \<and> mset newHosts = mset (map GetAddr picked) \<and> peers = map peerOf picked"
  by (auto simp: reshuffled_def dest: reshuffleHosts_Inr split: sum.splits)

lemma reshuffled_Inl:
  "result (reshuffled rt picked) = Inl e \<Longrightarrow> picked = [] \<and> e = ErrReshuffleArray"
  by (auto simp: reshuffled_def dest: reshuffleHosts_Inl split: sum.splits)

lemma reshuffled_charged [simp]: "charged (reshuffled rt picked) = picked"
  by (simp add: reshuffled_def)

lemma RoundRobin_Select_unfold:
  assumes "pickNodes (\<lambda>k. sortByID rt (getNodes ns (rr_nodeType s)) !
                ((k + rr_index s) mod length (sortByID rt (getNodes ns (rr_nodeType s)))))
             (length (sortByID rt (getNodes ns (rr_nodeType s))))
             (selectable (rr_nodeType s) excludeHosts) replicaNum 0 0 [] = (e, picked)"
  shows "RoundRobin_Select rt s ns excludeHosts replicaNum =
     (if replicaNum = 0 then (s, \<lparr>result = Inr ([], []), charged = []\<rparr>, 0)
      else if int (length (getNodes ns (rr_nodeType s))) < replicaNum
      then (s, \<lparr>result = Inl (ErrNoEnoughWritableHosts replicaNum
                               (length (getNodes ns (rr_nodeType s)))), charged = []\<rparr>, 0)
      else if int (length picked) < replicaNum
      then (s, \<lparr>result = Inl (ErrNoEnoughWritableHosts replicaNum (length picked)),
                charged = picked\<rparr>, e)
      else (s\<lparr>rr_index := rr_index s + e\<rparr>, reshuffled rt picked, e))"
  by (simp add: RoundRobin_Select_def Let_def assms)


subsection \<open>RoundRobin: the cursor\<close>

lemma RoundRobin_eval_shortfall:
  "RoundRobin_Select (testRuntime []) rrStart oneWritableOfTwo [] 2 =
     (rrStart,
      \<lparr>result = Inl (ErrNoEnoughWritableHosts 2 1),
       charged = [DataNodePtr (mkDataNode 1 ''a'' 100 50 True)]\<rparr>, 2)"
  by (simp add: RoundRobin_Select_def testRuntime_def rrStart_def oneWritableOfTwo_def dataSet_def
      mkDataNode_def selectable_def contains_def pickNodes.simps findWritable.simps)

text \<open>
  C6, as stated, fails: on the node-set \<open>oneWritableOfTwo\<close> with \<open>replicaNum = 2\<close> the call
  examines both nodes, finds one writable node, returns the error, and leaves the cursor
  at 0, not at 0 + 2.
\<close>

theorem RoundRobin_cursor_counterexample:
  "rr_index (fst (RoundRobin_Select (testRuntime []) rrStart oneWritableOfTwo [] 2))
     \<noteq> rr_index rrStart + snd (snd (RoundRobin_Select (testRuntime []) rrStart oneWritableOfTwo [] 2))"
  by (simp add: RoundRobin_eval_shortfall)

text \<open>
  C10. If RoundRobin \<^verbatim>\<open>Select\<close> returns the not-enough-writable-hosts error, the cursor
  (\<^verbatim>\<open>index\<close>) is unchanged by the call, even though nodes were examined: when the node-set
  holds at least \<open>replicaNum\<close> nodes (so that the error comes from the scan), the call has
  examined every node of the node-set, at least one.
\<close>

theorem RoundRobin_shortfall_keeps_cursor:
  assumes ok: "runtime_ok rt"
    and sel: "RoundRobin_Select rt s ns excludeHosts replicaNum = (s', out, nodeIndex)"
    and err: "result out = Inl (ErrNoEnoughWritableHosts replicaNum m)"
  shows "rr_index s' = rr_index s \<and>
         (replicaNum \<le> int (length (getNodes ns (rr_nodeType s))) \<longrightarrow>
            nodeIndex = length (getNodes ns (rr_nodeType s)) \<and> 0 < nodeIndex)"
proof -
  let ?nodes = "getNodes ns (rr_nodeType s)"
  let ?sorted = "sortByID rt ?nodes"
  have len: "length ?sorted = length ?nodes"
    by (rule sortsBy_length[OF runtime_ok_byID[OF ok]])
  obtain e picked where scan:
    "pickNodes (\<lambda>k. ?sorted ! ((k + rr_index s) mod length ?sorted)) (length ?sorted)
       (selectable (rr_nodeType s) excludeHosts) replicaNum 0 0 [] = (e, picked)"
    by (cases "pickNodes (\<lambda>k. ?sorted ! ((k + rr_index s) mod length ?sorted)) (length ?sorted)
       (selectable (rr_nodeType s) excludeHosts) replicaNum 0 0 []")
  note facts = pickNodes_start[OF scan]
  note sel' = sel[unfolded RoundRobin_Select_unfold[OF scan]]
  show ?thesis
  proof (cases "replicaNum = 0")
    case True
    with sel' err show ?thesis by auto
  next
    case nz: False
    show ?thesis
    proof (cases "int (length ?nodes) < replicaNum")
      case True
      with nz sel' show ?thesis by auto
    next
      case enough: False
      show ?thesis
      proof (cases "int (length picked) < replicaNum")
        case True
        with nz enough sel' have "s' = s" "nodeIndex = e" by auto
        moreover have "e = length ?nodes" using facts(4)[OF True] len by simp
        moreover have "0 < length ?nodes" using True enough by auto
        ultimately show ?thesis by simp
      next
        case False
        with nz enough sel' have "out = reshuffled rt picked" by auto
        with err show ?thesis by (auto dest: reshuffled_Inl)
      qed
    qed
  qed
qed

theorem RoundRobin_shortfall_keeps_cursor_witness:
  "runtime_ok (testRuntime [] :: rat runtime) \<and>
   result (fst (snd (RoundRobin_Select (testRuntime []) rrStart oneWritableOfTwo [] 2)))
     = Inl (ErrNoEnoughWritableHosts 2 1) \<and>
   rr_index (fst (RoundRobin_Select (testRuntime []) rrStart oneWritableOfTwo [] 2))
     = rr_index rrStart \<and>
   snd (snd (RoundRobin_Select (testRuntime []) rrStart oneWritableOfTwo [] 2)) = 2"
  using RoundRobin_shortfall_keeps_cursor[OF runtime_ok_testRuntime RoundRobin_eval_shortfall, of 1]
  by (simp add: RoundRobin_eval_shortfall runtime_ok_testRuntime)

subsection \<open>The scanning selectors: what a successful call returns\<close>

lemma pickNodes_take:
  assumes scan: "pickNodes nodeAt (length ys) ok N 0 0 [] = (e, picked)"
    and nth: "\<And>k. k < length ys \<Longrightarrow> nodeAt k = ys ! k"
  shows "e \<le> length ys" and "picked = filter ok (take e ys)"
    and "picked = take (nat N) (filter ok ys)"
    and "int (length picked) < N \<Longrightarrow> e = length ys"
proof -
  note facts = pickNodes_start[OF scan]
  show e: "e \<le> length ys" by (rule facts(1))
  have "map nodeAt [0..<e] = take e ys"
    using e nth by (intro nth_equalityI) simp_all
  with facts(2) show p: "picked = filter ok (take e ys)" by simp
  show short: "int (length picked) < N \<Longrightarrow> e = length ys" by (rule facts(4))
  have split: "filter ok ys = picked @ filter ok (drop e ys)"
    by (metis p append_take_drop_id filter_append)
  show "picked = take (nat N) (filter ok ys)"
  proof (cases "int (length picked) < N")
    case True
    then have "e = length ys" by (rule short)
    with p have "picked = filter ok ys" by simp
    with True show ?thesis by simp
  next
    case False
    with facts(3) have "length picked = nat N" by auto
    with split show ?thesis by simp
  qed
qed

lemma selectable_iff:
  "selectable nodeType excludeHosts node \<longleftrightarrow>
     canAllocPartition node nodeType \<and> GetAddr node \<notin> set excludeHosts"
  by (auto simp: selectable_def contains_def)

lemma AvailableSpaceFirst_Select_unfold:
  assumes "pickNodes (\<lambda>k. sortBySpace rt (asf_nodeType s) (getNodes ns (asf_nodeType s)) ! k)
             (length (sortBySpace rt (asf_nodeType s) (getNodes ns (asf_nodeType s))))
             (selectable (asf_nodeType s) excludeHosts) replicaNum 0 0 [] = (e, picked)"
  shows "AvailableSpaceFirst_Select rt s ns excludeHosts replicaNum =
     (if replicaNum = 0 then \<lparr>result = Inr ([], []), charged = []\<rparr>
      else if int (length (getNodes ns (asf_nodeType s))) < replicaNum
      then \<lparr>result = Inl (ErrNoEnoughHosts replicaNum (length (getNodes ns (asf_nodeType s)))),
            charged = []\<rparr>
      else if int (length picked) < replicaNum
      then \<lparr>result = Inl (ErrNoEnoughWritableHosts replicaNum (length picked)), charged = picked\<rparr>
      else reshuffled rt picked)"
  by (simp add: AvailableSpaceFirst_Select_def Let_def assms)

lemma AvailableSpaceFirst_success:
  assumes sel: "AvailableSpaceFirst_Select rt s ns excludeHosts replicaNum = out"
    and res: "result out = Inr (newHosts, peers)"
  shows "mset newHosts = mset (map GetAddr (charged out))"
    and "peers = map peerOf (charged out)"
    and "int (length (charged out)) = replicaNum"
    and "charged out = take (nat replicaNum)
             (filter (selectable (asf_nodeType s) excludeHosts)
                (sortBySpace rt (asf_nodeType s) (getNodes ns (asf_nodeType s))))"
proof -
  let ?t = "asf_nodeType s"
  let ?sorted = "sortBySpace rt ?t (getNodes ns ?t)"
  obtain e picked where scan:
    "pickNodes (\<lambda>k. ?sorted ! k) (length ?sorted) (selectable ?t excludeHosts) replicaNum 0 0 []
       = (e, picked)"
    by (cases "pickNodes (\<lambda>k. ?sorted ! k) (length ?sorted) (selectable ?t excludeHosts)
       replicaNum 0 0 []")
  note tk = pickNodes_take[OF scan refl]
  note st = pickNodes_start[OF scan]
  note sel' = sel[unfolded AvailableSpaceFirst_Select_unfold[OF scan]]
  have "mset newHosts = mset (map GetAddr (charged out)) \<and> peers = map peerOf (charged out) \<and>
        int (length (charged out)) = replicaNum \<and>
        charged out = take (nat replicaNum) (filter (selectable ?t excludeHosts) ?sorted)"
  proof (cases "replicaNum = 0")
    case True
    with sel' res show ?thesis by auto
  next
    case nz: False
    from nz sel' res have enough: "\<not> int (length picked) < replicaNum"
      and out: "out = reshuffled rt picked"
      by (auto split: if_splits)
    from out res have r: "picked \<noteq> []" "mset newHosts = mset (map GetAddr picked)"
        "peers = map peerOf picked"
      using reshuffled_Inr by blast+
    from enough st(3) r(1) have "int (length picked) = replicaNum" by (cases picked) auto
    with out r tk(3) show ?thesis by simp
  qed
  then show "mset newHosts = mset (map GetAddr (charged out))"
    and "peers = map peerOf (charged out)"
    and "int (length (charged out)) = replicaNum"
    and "charged out = take (nat replicaNum) (filter (selectable ?t excludeHosts) ?sorted)"
    by blast+
qed

lemma sorted_wrt_take_drop:
  assumes "sorted_wrt P xs" "a \<in> set (take n xs)" "b \<in> set (drop n xs)"
  shows "P a b"
proof -
  have "sorted_wrt P (take n xs @ drop n xs)" using assms(1) by simp
  then show ?thesis using assms(2,3) unfolding sorted_wrt_append by blast
qed

lemma distinct_map_inj:
  "distinct (map f xs) \<Longrightarrow> a \<in> set xs \<Longrightarrow> b \<in> set xs \<Longrightarrow> f a = f b \<Longrightarrow> a = b"
  by (meson distinct_map inj_onD)

text \<open>
  C8. For every successful AvailableSpaceFirst \<^verbatim>\<open>Select(excluded, N)\<close> call, the returned
  hosts are the top \<open>N\<close> by available space of the selector's resource type among the
  writable, non-excluded nodes of the node-set, up to ties: they are \<open>N\<close> distinct
  addresses of writable, non-excluded nodes, and every node whose address is returned
  has at least the available space of every writable, non-excluded node whose address is
  not returned. (Addresses are unique within a node-set.)
\<close>

theorem AvailableSpaceFirst_top_N:
  assumes ok: "runtime_ok rt"
    and addrs: "distinct (map GetAddr (getNodes ns (asf_nodeType s)))"
    and sel: "AvailableSpaceFirst_Select rt s ns excludeHosts replicaNum = out"
    and res: "result out = Inr (newHosts, peers)"
  shows "int (length newHosts) = replicaNum \<and> distinct newHosts \<and>
         (\<forall>h\<in>set newHosts. \<exists>a\<in>set (getNodes ns (asf_nodeType s)).
            GetAddr a = h \<and> canAllocPartition a (asf_nodeType s) \<and> h \<notin> set excludeHosts) \<and>
         (\<forall>a\<in>set (getNodes ns (asf_nodeType s)). \<forall>b\<in>set (getNodes ns (asf_nodeType s)).
            GetAddr a \<in> set newHosts \<and> canAllocPartition b (asf_nodeType s) \<and>
            GetAddr b \<notin> set excludeHosts \<and> GetAddr b \<notin> set newHosts
            \<longrightarrow> getNodeAvailableSpace (asf_nodeType s) b \<le> getNodeAvailableSpace (asf_nodeType s) a)"
proof -
  let ?t = "asf_nodeType s"
  let ?nodes = "getNodes ns ?t"
  let ?sorted = "sortBySpace rt ?t ?nodes"
  let ?cand = "filter (selectable ?t excludeHosts) ?sorted"
  let ?sp = "getNodeAvailableSpace ?t"
  note srt = runtime_ok_bySpace[OF ok, of ?t]
  define picked where "picked = charged out"
  have p: "mset newHosts = mset (map GetAddr picked)"
      "int (length picked) = replicaNum" "picked = take (nat replicaNum) ?cand"
    unfolding picked_def
    by (rule AvailableSpaceFirst_success(1)[OF sel res],
        rule AvailableSpaceFirst_success(3)[OF sel res],
        rule AvailableSpaceFirst_success(4)[OF sel res])
  have set_sorted: "set ?sorted = set ?nodes" by (rule sortsBy_set[OF srt])
  have dist_sorted: "distinct (map GetAddr ?sorted)"
    by (rule mset_map_distinct[OF sortsBy_mset[OF srt] addrs])
  have dist_cand: "distinct (map GetAddr ?cand)"
    using dist_sorted by (rule distinct_map_filter)
  have dist_picked: "distinct (map GetAddr picked)"
    unfolding p(3) take_map[symmetric] using dist_cand by (rule distinct_take)
  have hosts: "set newHosts = GetAddr ` set picked"
    by (metis p(1) set_mset_mset set_map)
  have sub: "set picked \<subseteq> set ?cand" unfolding p(3) by (rule set_take_subset)
  have c1: "int (length newHosts) = replicaNum"
    by (metis p(1) p(2) size_mset length_map)
  have c2: "distinct newHosts"
    by (metis p(1) dist_picked mset_eq_imp_distinct_iff)
  have c3: "\<forall>h\<in>set newHosts. \<exists>a\<in>set ?nodes.
            GetAddr a = h \<and> canAllocPartition a ?t \<and> h \<notin> set excludeHosts"
  proof
    fix h assume "h \<in> set newHosts"
    then obtain a where a: "a \<in> set picked" "GetAddr a = h" using hosts by auto
    with sub have "a \<in> set ?sorted" "selectable ?t excludeHosts a" by auto
    with a set_sorted show "\<exists>a\<in>set ?nodes.
            GetAddr a = h \<and> canAllocPartition a ?t \<and> h \<notin> set excludeHosts"
      by (auto simp: selectable_iff)
  qed
  have sorted_cand: "sorted_wrt (\<lambda>a b. \<not> ?sp a < ?sp b) ?cand"
    using sortsBy_sorted[OF srt, of ?nodes] by (rule sorted_wrt_filter)
  have c4: "?sp b \<le> ?sp a"
    if ab: "a \<in> set ?nodes" "b \<in> set ?nodes" "GetAddr a \<in> set newHosts"
      "canAllocPartition b ?t" "GetAddr b \<notin> set excludeHosts" "GetAddr b \<notin> set newHosts"
    for a b
  proof -
    obtain a' where a': "a' \<in> set picked" "GetAddr a' = GetAddr a" using ab(3) hosts by auto
    have "a' \<in> set ?sorted" using a'(1) sub by auto
    then have "a' = a"
      using distinct_map_inj[OF dist_sorted _ _ a'(2)] ab(1) set_sorted by auto
    with a' have a_in: "a \<in> set (take (nat replicaNum) ?cand)" using p(3) by simp
    have "b \<in> set ?cand" using ab(2,4,5) set_sorted by (simp add: selectable_iff)
    moreover have "b \<notin> set (take (nat replicaNum) ?cand)"
      using ab(6) hosts p(3) by auto
    ultimately have "b \<in> set (drop (nat replicaNum) ?cand)"
      by (metis append_take_drop_id set_append Un_iff)
    with sorted_cand a_in have "\<not> ?sp a < ?sp b" by (rule sorted_wrt_take_drop)
    then show ?thesis by simp
  qed
  from c1 c2 c3 c4 show ?thesis by blast
qed

lemma RoundRobin_success:
  assumes sel: "RoundRobin_Select rt s ns excludeHosts replicaNum = (s', out, e)"
    and res: "result out = Inr (newHosts, peers)"
  shows "mset newHosts = mset (map GetAddr (charged out))"
    and "peers = map peerOf (charged out)"
    and "int (length (charged out)) = replicaNum"
    and "charged out = take (nat replicaNum)
             (filter (selectable (rr_nodeType s) excludeHosts)
                (rotate (rr_index s) (sortByID rt (getNodes ns (rr_nodeType s)))))"
    and "charged out = filter (selectable (rr_nodeType s) excludeHosts)
                (take e (rotate (rr_index s) (sortByID rt (getNodes ns (rr_nodeType s)))))"
    and "e \<le> length (sortByID rt (getNodes ns (rr_nodeType s)))"
    and "rr_index s' = rr_index s + e"
    and "rr_nodeType s' = rr_nodeType s"
proof -
  let ?t = "rr_nodeType s"
  let ?sorted = "sortByID rt (getNodes ns ?t)"
  let ?ys = "rotate (rr_index s) ?sorted"
  obtain e' picked where scan:
    "pickNodes (\<lambda>k. ?sorted ! ((k + rr_index s) mod length ?sorted)) (length ?sorted)
       (selectable ?t excludeHosts) replicaNum 0 0 [] = (e', picked)"
    by (cases "pickNodes (\<lambda>k. ?sorted ! ((k + rr_index s) mod length ?sorted)) (length ?sorted)
       (selectable ?t excludeHosts) replicaNum 0 0 []")
  then have scan': "pickNodes (\<lambda>k. ?sorted ! ((k + rr_index s) mod length ?sorted)) (length ?ys)
       (selectable ?t excludeHosts) replicaNum 0 0 [] = (e', picked)" by simp
  have nth: "?sorted ! ((k + rr_index s) mod length ?sorted) = ?ys ! k" if "k < length ?ys" for k
    using that by (simp add: nth_rotate add.commute)
  note tk = pickNodes_take[OF scan' nth]
  note st = pickNodes_start[OF scan]
  note sel' = sel[unfolded RoundRobin_Select_unfold[OF scan]]
  have "mset newHosts = mset (map GetAddr (charged out)) \<and> peers = map peerOf (charged out) \<and>
        int (length (charged out)) = replicaNum \<and>
        charged out = take (nat replicaNum) (filter (selectable ?t excludeHosts) ?ys) \<and>
        charged out = filter (selectable ?t excludeHosts) (take e ?ys) \<and>
        e \<le> length ?sorted \<and> rr_index s' = rr_index s + e \<and> rr_nodeType s' = rr_nodeType s"
  proof (cases "replicaNum = 0")
    case True
    with sel' res show ?thesis by auto
  next
    case nz: False
    from nz sel' res have enough: "\<not> int (length picked) < replicaNum"
      and out: "out = reshuffled rt picked" and e: "e = e'"
      and s': "s' = s\<lparr>rr_index := rr_index s + e\<rparr>"
      by (auto split: if_splits)
    from out res have r: "picked \<noteq> []" "mset newHosts = mset (map GetAddr picked)"
        "peers = map peerOf picked"
      using reshuffled_Inr by blast+
    from enough st(3) r(1) have len: "int (length picked) = replicaNum" by (cases picked) auto
    have c: "charged out = picked" using out by simp
    have el: "e \<le> length ?sorted" using tk(1) e by simp
    show ?thesis
      unfolding c using r(2,3) len tk(3) tk(2) el s' e by simp
  qed
  then show "mset newHosts = mset (map GetAddr (charged out))"
    and "peers = map peerOf (charged out)"
    and "int (length (charged out)) = replicaNum"
    and "charged out = take (nat replicaNum) (filter (selectable ?t excludeHosts) ?ys)"
    and "charged out = filter (selectable ?t excludeHosts) (take e ?ys)"
    and "e \<le> length ?sorted" and "rr_index s' = rr_index s + e"
    and "rr_nodeType s' = rr_nodeType s"
    by blast+
qed

lemma map_eq_set_eq_distinct:
  assumes m: "map f xs = map f ys" and s: "set xs = set ys" and d: "distinct (map f xs)"
  shows "xs = ys"
proof (rule nth_equalityI)
  show len: "length xs = length ys" using m by (rule map_eq_imp_length_eq)
  fix i assume i: "i < length xs"
  then have "xs ! i \<in> set ys" using s by auto
  then obtain j where j: "j < length ys" "ys ! j = xs ! i" by (auto simp: in_set_conv_nth)
  have "map f xs ! j = map f ys ! j" using m by simp
  also have "\<dots> = f (ys ! j)" using j by simp
  also have "\<dots> = map f xs ! i" using j i by simp
  finally have eq: "map f xs ! j = map f xs ! i" .
  have "j < length (map f xs)" "i < length (map f xs)" using i j len by simp_all
  with d eq have "j = i" using nth_eq_iff_index_eq by blast
  with j show "xs ! i = ys ! i" by simp
qed

lemma sortsBy_unique:
  fixes f :: "'a \<Rightarrow> 'b::linorder"
  assumes s1: "sortsBy (\<lambda>a b. f a < f b) srt1" and s2: "sortsBy (\<lambda>a b. f a < f b) srt2"
    and m: "mset ys = mset xs" and d: "distinct (map f xs)"
  shows "srt1 xs = srt2 ys"
proof -
  have sorted: "sorted (map f (srt zs))" if "sortsBy (\<lambda>a b. f a < f b) srt" for srt zs
  proof -
    have "sorted_wrt (\<lambda>a b. \<not> f b < f a) (srt zs)" using that by (rule sortsBy_sorted)
    then have "sorted_wrt (\<lambda>a b. f a \<le> f b) (srt zs)"
      by (rule sorted_wrt_mono_rel[rotated]) auto
    then show ?thesis by (simp add: sorted_map)
  qed
  have m1: "mset (srt1 xs) = mset xs" and m2: "mset (srt2 ys) = mset xs"
    using sortsBy_mset[OF s1] sortsBy_mset[OF s2] m by simp_all
  have d1: "distinct (map f (srt1 xs))" by (rule mset_map_distinct[OF m1 d])
  have d2: "distinct (map f (srt2 ys))" by (rule mset_map_distinct[OF m2 d])
  have "set (map f (srt1 xs)) = set (map f (srt2 ys))"
    by (metis m1 m2 mset_map set_mset_mset)
  with sorted[OF s1] sorted[OF s2] d1 d2 have "map f (srt1 xs) = map f (srt2 ys)"
    by (intro sorted_distinct_set_unique) simp_all
  moreover have "set (srt1 xs) = set (srt2 ys)" by (metis m1 m2 set_mset_mset)
  ultimately show ?thesis using d1 by (rule map_eq_set_eq_distinct)
qed

lemmas eval_defs = RoundRobin_Select_def AvailableSpaceFirst_Select_def testRuntime_def rrStart_def
  dataSet_def mkDataNode_def selectable_def contains_def pickNodes.simps findWritable.simps
  reshuffled_def reshuffleHosts_def peerOf_def word_le_nat_alt word_less_nat_alt

text \<open>
  C7, as stated, fails: of the four nodes of \<open>fourNodesTwoWritable\<close> (\<open>|S| = 4 = 2N\<close>) only
  \<open>a\<close> and \<open>d\<close> are writable. The first call examines all four nodes and moves the cursor
  to 4; the second call starts again at \<open>a\<close>. Both calls succeed and return \<open>a\<close> and \<open>d\<close>.
\<close>

theorem RoundRobin_disjoint_counterexample:
  "2 * 2 \<le> int (length (getNodes fourNodesTwoWritable DataNodeDisk)) \<and>
   RoundRobin_Select (testRuntime []) rrStart fourNodesTwoWritable [] 2 =
     (rrStart\<lparr>rr_index := 4\<rparr>,
      \<lparr>result = Inr ([''a'', ''d''], [(1, ''a''), (4, ''d'')]),
       charged = [DataNodePtr (mkDataNode 1 ''a'' 100 50 True),
                  DataNodePtr (mkDataNode 4 ''d'' 100 50 True)]\<rparr>, 4) \<and>
   RoundRobin_Select (testRuntime []) (rrStart\<lparr>rr_index := 4\<rparr>) fourNodesTwoWritable [] 2 =
     (rrStart\<lparr>rr_index := 8\<rparr>,
      \<lparr>result = Inr ([''a'', ''d''], [(1, ''a''), (4, ''d'')]),
       charged = [DataNodePtr (mkDataNode 1 ''a'' 100 50 True),
                  DataNodePtr (mkDataNode 4 ''d'' 100 50 True)]\<rparr>, 4) \<and>
   set [''a'', ''d''] \<inter> set [''a'', ''d''] \<noteq> {}"
  by (simp add: eval_defs fourNodesTwoWritable_def)

lemma shuffle_swap: "shuffle [3] [x, y] = [y, x]"
  by (simp add: Let_def numeral_3_eq_3 mod_Suc)

lemma AvailableSpaceFirst_eval:
  "AvailableSpaceFirst_Select (testRuntime []) asfData fiveNodes [''n1''] 3 =
     \<lparr>result = Inr ([''n2'', ''n3'', ''n4''], [(2, ''n2''), (3, ''n3''), (4, ''n4'')]),
      charged = [DataNodePtr (mkDataNode 2 ''n2'' 200 90 True),
                 DataNodePtr (mkDataNode 3 ''n3'' 200 80 True),
                 DataNodePtr (mkDataNode 4 ''n4'' 200 70 True)]\<rparr>"
  by (simp add: eval_defs fiveNodes_def asfData_def)

theorem AvailableSpaceFirst_top_N_witness:
  "runtime_ok (testRuntime []) \<and>
   distinct (map GetAddr (getNodes fiveNodes (asf_nodeType asfData))) \<and>
   result (AvailableSpaceFirst_Select (testRuntime []) asfData fiveNodes [''n1''] 3)
     = Inr ([''n2'', ''n3'', ''n4''], [(2, ''n2''), (3, ''n3''), (4, ''n4'')]) \<and>
   int (length [''n2'', ''n3'', ''n4'']) = 3 \<and> distinct [''n2'', ''n3'', ''n4''] \<and>
   getNodeAvailableSpace DataNodeDisk (DataNodePtr (mkDataNode 5 ''n5'' 200 60 True))
     \<le> getNodeAvailableSpace DataNodeDisk (DataNodePtr (mkDataNode 4 ''n4'' 200 70 True))"
proof -
  have addrs: "distinct (map GetAddr (getNodes fiveNodes (asf_nodeType asfData)))"
    by (simp add: asfData_def fiveNodes_def dataSet_def mkDataNode_def)
  have res: "result (AvailableSpaceFirst_Select (testRuntime []) asfData fiveNodes [''n1''] 3)
     = Inr ([''n2'', ''n3'', ''n4''], [(2, ''n2''), (3, ''n3''), (4, ''n4'')])"
    by (simp add: AvailableSpaceFirst_eval)
  note th = AvailableSpaceFirst_top_N[OF runtime_ok_testRuntime addrs refl res]
  have n4: "DataNodePtr (mkDataNode 4 ''n4'' 200 70 True) \<in> set (getNodes fiveNodes (asf_nodeType asfData))"
    and n5: "DataNodePtr (mkDataNode 5 ''n5'' 200 60 True) \<in> set (getNodes fiveNodes (asf_nodeType asfData))"
    by (simp_all add: asfData_def fiveNodes_def dataSet_def)
  from th n4 n5
  have "getNodeAvailableSpace (asf_nodeType asfData) (DataNodePtr (mkDataNode 5 ''n5'' 200 60 True))
     \<le> getNodeAvailableSpace (asf_nodeType asfData) (DataNodePtr (mkDataNode 4 ''n4'' 200 70 True))"
    by (auto simp: mkDataNode_def asfData_def)
  with th addrs res show ?thesis
    by (simp add: runtime_ok_testRuntime asfData_def)
qed

subsection \<open>CarryWeight: the advancement loop\<close>

lemma advanced_simps [simp]: "Ptr (advanced nt) = Ptr nt" "Weight (advanced nt) = Weight nt"
  "Carry (advanced nt) \<le> 10"
  by (simp_all add: advanced_def)

lemma advanceCarry_Cons:
  "advanceCarry c (nt # rest) =
     (advanced nt # fst (advanceCarry (c(GetID (Ptr nt) \<mapsto> Carry (advanced nt))) rest),
      fst (snd (advanceCarry (c(GetID (Ptr nt) \<mapsto> Carry (advanced nt))) rest)),
      (if Carry (advanced nt) > 1
       then snd (snd (advanceCarry (c(GetID (Ptr nt) \<mapsto> Carry (advanced nt))) rest)) + 1
       else snd (snd (advanceCarry (c(GetID (Ptr nt) \<mapsto> Carry (advanced nt))) rest))))"
  by (simp add: Let_def advanced_def case_prod_beta)

lemma advanceCarry_nodes: "fst (advanceCarry c nodes) = map advanced nodes"
  by (induction nodes arbitrary: c) (simp_all add: advanceCarry_Cons del: advanceCarry.simps(2))

lemma advanceCarry_count:
  "snd (snd (advanceCarry c nodes)) = length (filter (\<lambda>nt. Carry nt > 1) (map advanced nodes))"
  by (induction nodes arbitrary: c) (simp_all add: advanceCarry_Cons del: advanceCarry.simps(2))



lemma advanceCarry_eq:
  "advanceCarry c nodes =
     (map advanced nodes, fst (snd (advanceCarry c nodes)),
      length (filter (\<lambda>nt. Carry nt > 1) (map advanced nodes)))"
  by (metis advanceCarry_nodes advanceCarry_count prod.collapse)


lemma passesNeeded_advanced:
  assumes w: "0 < Weight nt"
  shows "passesNeeded (advanced nt) \<le> passesNeeded nt"
    and "Carry nt \<le> 1 \<Longrightarrow> passesNeeded (advanced nt) < passesNeeded nt"
proof -
  have main: "passesNeeded (advanced nt) < passesNeeded nt" if le: "Carry nt \<le> 1"
  proof (cases "Carry (advanced nt) > 1")
    case True
    with le show ?thesis by (simp add: passesNeeded_def)
  next
    case False
    then have small: "Carry nt + Weight nt \<le> 1" and c': "Carry (advanced nt) = Carry nt + Weight nt"
      by (auto simp: advanced_def split: if_splits)
    let ?x = "(1 - Carry nt) / Weight nt"
    have "(1 - (Carry nt + Weight nt)) / Weight nt = ?x - 1"
      using w by (simp add: field_simps)
    moreover have "1 \<le> ?x" using w small by (simp add: field_simps)
    then have "1 \<le> \<lfloor>?x\<rfloor>" by simp
    ultimately have "nat \<lfloor>(1 - (Carry nt + Weight nt)) / Weight nt\<rfloor> < nat \<lfloor>?x\<rfloor>"
      by simp
    with False le c' show ?thesis by (simp add: passesNeeded_def)
  qed
  show "Carry nt \<le> 1 \<Longrightarrow> passesNeeded (advanced nt) < passesNeeded nt" by (rule main)
  show "passesNeeded (advanced nt) \<le> passesNeeded nt"
  proof (cases "Carry nt \<le> 1")
    case True
    then show ?thesis using main by simp
  next
    case False
    then have "Carry (advanced nt) > 1" using w by (simp add: advanced_def)
    then show ?thesis by (simp add: passesNeeded_def)
  qed
qed

lemma sum_passesNeeded_le:
  "\<forall>nt\<in>set nodes. 0 < Weight nt \<Longrightarrow>
   sum_list (map passesNeeded (map advanced nodes)) \<le> sum_list (map passesNeeded nodes)"
proof (induction nodes)
  case (Cons a rest)
  then show ?case using passesNeeded_advanced(1)[of a] by fastforce
qed simp

lemma sum_passesNeeded_less:
  "\<forall>nt\<in>set nodes. 0 < Weight nt \<Longrightarrow> \<exists>nt\<in>set nodes. Carry nt \<le> 1 \<Longrightarrow>
   sum_list (map passesNeeded (map advanced nodes)) < sum_list (map passesNeeded nodes)"
proof (induction nodes)
  case (Cons a rest)
  have w: "0 < Weight a" and wr: "\<forall>nt\<in>set rest. 0 < Weight nt" using Cons.prems(1) by simp_all
  show ?case
  proof (cases "Carry a \<le> 1")
    case True
    from passesNeeded_advanced(2)[OF w True] sum_passesNeeded_le[OF wr]
    show ?thesis by simp
  next
    case False
    with Cons.prems(2) have "\<exists>nt\<in>set rest. Carry nt \<le> 1" by auto
    from Cons.IH[OF wr this] passesNeeded_advanced(1)[OF w] show ?thesis by simp
  qed
qed simp

lemma setNodeCarry_counted_terminates:
  assumes "\<forall>nt\<in>set nodes. 0 < Weight nt" and "replicaNum \<le> int (length nodes)"
  shows "\<exists>r. setNodeCarry c nodes (int (length (filter (\<lambda>nt. Carry nt > 1) nodes))) replicaNum
           = Some r"
  using assms
proof (induction "sum_list (map passesNeeded nodes)" arbitrary: nodes c rule: less_induct)
  case less
  let ?k = "length (filter (\<lambda>nt. Carry nt > 1) nodes)"
  show ?case
  proof (cases "int ?k < replicaNum")
    case False
    then show ?thesis by (simp add: setNodeCarry.simps)
  next
    case True
    with less.prems(2) have "?k < length nodes" by simp
    then have "filter (\<lambda>nt. Carry nt > 1) nodes \<noteq> nodes" by auto
    then have ex: "\<exists>nt\<in>set nodes. Carry nt \<le> 1" by (auto simp: filter_id_conv not_less)
    let ?nodes' = "map advanced nodes"
    let ?c' = "fst (snd (advanceCarry c nodes))"
    have dec: "sum_list (map passesNeeded ?nodes') < sum_list (map passesNeeded nodes)"
      by (rule sum_passesNeeded_less[OF less.prems(1) ex])
    have w': "\<forall>nt\<in>set ?nodes'. 0 < Weight nt" using less.prems(1) by simp
    have l': "replicaNum \<le> int (length ?nodes')" using less.prems(2) by simp
    from less.hyps[OF dec w' l', of ?c']
    obtain r where r: "setNodeCarry ?c' ?nodes'
        (int (length (filter (\<lambda>nt. Carry nt > 1) ?nodes'))) replicaNum = Some r" by blast
    have "setNodeCarry c nodes (int ?k) replicaNum = Some r"
      apply (subst setNodeCarry.simps)
      apply (subst advanceCarry_eq)
      using True r by simp
    then show ?thesis by blast
  qed
qed

lemma setNodeCarry_terminates:
  assumes w: "\<forall>nt\<in>set nodes. 0 < Weight nt" and l: "replicaNum \<le> int (length nodes)"
  shows "\<exists>r. setNodeCarry c nodes availCarryCount replicaNum = Some r"
proof (cases "availCarryCount < replicaNum")
  case False
  then show ?thesis by (simp add: setNodeCarry.simps)
next
  case True
  let ?nodes' = "map advanced nodes"
  let ?c' = "fst (snd (advanceCarry c nodes))"
  have w': "\<forall>nt\<in>set ?nodes'. 0 < Weight nt" using w by simp
  have l': "replicaNum \<le> int (length ?nodes')" using l by simp
  from setNodeCarry_counted_terminates[OF w' l', of ?c']
  obtain r where r: "setNodeCarry ?c' ?nodes'
        (int (length (filter (\<lambda>nt. Carry nt > 1) ?nodes'))) replicaNum = Some r" by blast
  have "setNodeCarry c nodes availCarryCount replicaNum = Some r"
    apply (subst setNodeCarry.simps)
    apply (subst advanceCarry_eq)
    using True r by simp
  then show ?thesis by blast
qed


lemma setNodeCarry_Ptr_aux:
  assumes "setNodeCarry c nodes availCarryCount replicaNum = Some y"
  shows "map Ptr (fst y) = map Ptr nodes"
  using assms
proof (induction c nodes availCarryCount replicaNum y
    rule: setNodeCarry.raw_induct[rotated, consumes 1, case_names step])
  case (step f c nodes a N y)
  show ?case
  proof (cases "a < N")
    case True
    with step(2) have "f (fst (snd (advanceCarry c nodes))) (map advanced nodes)
        (int (length (filter (\<lambda>nt. Carry nt > 1) (map advanced nodes)))) N = Some y"
      by (subst (asm) advanceCarry_eq) simp
    from step(1)[OF this] show ?thesis by (simp add: comp_def)
  next
    case False
    with step(2) show ?thesis by auto
  qed
qed

lemma setNodeCarry_Ptr:
  "setNodeCarry c nodes availCarryCount replicaNum = Some (nodes', c') \<Longrightarrow>
   map Ptr nodes' = map Ptr nodes"
  using setNodeCarry_Ptr_aux by fastforce

subsection \<open>RoundRobin: the cursor and the nodes examined\<close>

lemma examinedUntil_skip:
  "filter ok xs = [] \<Longrightarrow>
   examinedUntil ok (xs @ zs) (Suc n) = length xs + examinedUntil ok zs (Suc n)"
  by (induction xs) (auto split: if_splits)

lemma examinedUntil_none: "filter ok xs = [] \<Longrightarrow> examinedUntil ok xs (Suc n) = length xs"
  using examinedUntil_skip[of ok xs "[]" n] by simp

lemma pickNodes_examined:
  "k \<le> len \<Longrightarrow>
   fst (pickNodes nodeAt len ok N i k picked)
     = k + examinedUntil ok (map nodeAt [k..<len]) (nat (N - i))"
proof (induction nodeAt len ok N i k picked rule: pickNodes.induct)
  case (1 nodeAt len ok N i k picked)
  show ?case
  proof (cases "i < N \<and> k < len")
    case False
    have "examinedUntil ok (map nodeAt [k..<len]) (nat (N - i)) = 0"
    proof (cases "i < N")
      case True
      with False "1.prems" have "k = len" by simp
      then show ?thesis by (cases "nat (N - i)") simp_all
    next
      case False
      then show ?thesis by simp
    qed
    with False show ?thesis by (auto simp: pickNodes.simps[of nodeAt len ok N i k picked])
  next
    case go: True
    then obtain n where n: "nat (N - i) = Suc n" "nat (N - (i + 1)) = n"
      by (cases "nat (N - i)") auto
    obtain k1 sel where fw: "findWritable nodeAt len ok k = (k1, sel)"
      by (cases "findWritable nodeAt len ok k")
    note f = findWritable_filter[OF fw "1.prems"]
    show ?thesis
    proof (cases "sel \<noteq> len")
      case True
      with f have a: "k1 = Suc sel" "k \<le> sel" "sel < len" "ok (nodeAt sel)"
        "filter ok (map nodeAt [k..<sel]) = []" by simp_all
      have k1: "k1 \<le> len" using a by simp
      have rec: "fst (pickNodes nodeAt len ok N i k picked)
          = fst (pickNodes nodeAt len ok N (i + 1) k1 (picked @ [nodeAt sel]))"
        using go fw True by (simp add: pickNodes.simps[of nodeAt len ok N i k picked])
      have split: "map nodeAt [k..<len]
          = map nodeAt [k..<sel] @ nodeAt sel # map nodeAt [Suc sel..<len]"
        by (simp add: upt_split3[OF a(2,3)])
      have "examinedUntil ok (map nodeAt [k..<len]) (Suc n)
          = (sel - k) + Suc (examinedUntil ok (map nodeAt [Suc sel..<len]) n)"
        unfolding split using examinedUntil_skip[OF a(5)] a(4) by simp
      with "1.IH"(1)[OF go fw[symmetric] True k1] rec a n show ?thesis by simp
    next
      case False
      with f have a: "k1 = len" "filter ok (map nodeAt [k..<len]) = []" by simp_all
      have rec: "fst (pickNodes nodeAt len ok N i k picked)
          = fst (pickNodes nodeAt len ok N (i + 1) k1 picked)"
        using go fw False by (simp add: pickNodes.simps[of nodeAt len ok N i k picked])
      have "fst (pickNodes nodeAt len ok N (i + 1) len picked) = len"
        by (simp add: pickNodes.simps[of nodeAt len ok N "i + 1" len picked])
      with rec a n examinedUntil_none[OF a(2), of n] go show ?thesis by simp
    qed
  qed
qed

text \<open>
  C6 (amended). For every RoundRobin \<^verbatim>\<open>Select\<close> call that succeeds, the cursor after the
  call equals the cursor before the call plus the number of nodes examined during the
  call, not the number accepted: the number examined is the length of the shortest
  prefix of the scan order (the id-sorted nodes, rotated by the cursor) that holds
  \<open>replicaNum\<close> selectable nodes, and it is also the final value of \<^verbatim>\<open>nodeIndex\<close>.
\<close>

theorem RoundRobin_cursor_on_success:
  assumes sel: "RoundRobin_Select rt s ns excludeHosts replicaNum = (s', out, nodeIndex)"
    and res: "result out = Inr (newHosts, peers)"
  shows "nodeIndex = examinedUntil (selectable (rr_nodeType s) excludeHosts)
                       (rotate (rr_index s) (sortByID rt (getNodes ns (rr_nodeType s))))
                       (nat replicaNum) \<and>
         rr_index s' = rr_index s + examinedUntil (selectable (rr_nodeType s) excludeHosts)
                       (rotate (rr_index s) (sortByID rt (getNodes ns (rr_nodeType s))))
                       (nat replicaNum)"
proof -
  let ?t = "rr_nodeType s"
  let ?sorted = "sortByID rt (getNodes ns ?t)"
  let ?at = "\<lambda>k. ?sorted ! ((k + rr_index s) mod length ?sorted)"
  obtain e picked where scan:
    "pickNodes ?at (length ?sorted) (selectable ?t excludeHosts) replicaNum 0 0 [] = (e, picked)"
    by (cases "pickNodes ?at (length ?sorted) (selectable ?t excludeHosts) replicaNum 0 0 []")
  have "e = 0 + examinedUntil (selectable ?t excludeHosts) (map ?at [0..<length ?sorted])
              (nat (replicaNum - 0))"
    using pickNodes_examined[of 0 "length ?sorted" ?at "selectable ?t excludeHosts" replicaNum 0 "[]"]
      scan by simp
  moreover have "map ?at [0..<length ?sorted] = rotate (rr_index s) ?sorted"
    using map_nodeAt_rotate[of "length ?sorted" ?sorted "rr_index s"] by simp
  ultimately have e: "e = examinedUntil (selectable ?t excludeHosts)
      (rotate (rr_index s) ?sorted) (nat replicaNum)" by simp
  from sel res show ?thesis
    unfolding RoundRobin_Select_unfold[OF scan] e by (auto split: if_splits)
qed

lemma mset_rotate_list: "mset (rotate n xs) = mset xs"
  by (metis append_take_drop_id mset_append union_commute rotate_drop_take)

text \<open>
  C7 (amended). For RoundRobin on a static node-set with at least \<open>2N\<close> writable nodes,
  two consecutive successful \<^verbatim>\<open>Select\<close> calls with \<^verbatim>\<open>excluded\<close> empty return disjoint host
  sets. The two calls may see the nodes in different \<^verbatim>\<open>Range\<close> orders and get different
  sort and shuffle results; ids and addresses are unique within the node-set.
\<close>

theorem RoundRobin_consecutive_disjoint:
  assumes ok1: "runtime_ok rt1" and ok2: "runtime_ok rt2"
    and static: "mset (getNodes ns2 (rr_nodeType s)) = mset (getNodes ns1 (rr_nodeType s))"
    and ids: "distinct (map GetID (getNodes ns1 (rr_nodeType s)))"
    and addrs: "distinct (map GetAddr (getNodes ns1 (rr_nodeType s)))"
    and writable: "2 * replicaNum \<le> int (length (filter (\<lambda>node. canAllocPartition node (rr_nodeType s))
                                             (getNodes ns1 (rr_nodeType s))))"
    and call1: "RoundRobin_Select rt1 s ns1 [] replicaNum = (s1, out1, e1)"
    and res1: "result out1 = Inr (hosts1, peers1)"
    and call2: "RoundRobin_Select rt2 s1 ns2 [] replicaNum = (s2, out2, e2)"
    and res2: "result out2 = Inr (hosts2, peers2)"
  shows "set hosts1 \<inter> set hosts2 = {}"
proof -
  let ?t = "rr_nodeType s"
  let ?nodes = "getNodes ns1 ?t"
  let ?sorted = "sortByID rt1 ?nodes"
  let ?ys = "rotate (rr_index s) ?sorted"
  let ?ok = "selectable ?t []"
  note srt1 = runtime_ok_byID[OF ok1]
  note srt2 = runtime_ok_byID[OF ok2]
  have ok_eq: "?ok = (\<lambda>node. canAllocPartition node ?t)"
    by (rule ext) (simp add: selectable_iff)
  have mset_ys: "mset ?ys = mset ?nodes"
    by (simp add: mset_rotate_list sortsBy_mset[OF srt1])
  have "mset (filter ?ok ?ys) = mset (filter ?ok ?nodes)"
    by (simp add: mset_filter mset_ys)
  then have total: "length (filter ?ok ?ys) = length (filter ?ok ?nodes)"
    by (metis size_mset)
  define p1 where "p1 = charged out1"
  note r1 = RoundRobin_success[OF call1 res1]
  have p1: "mset hosts1 = mset (map GetAddr p1)" "int (length p1) = replicaNum"
      "p1 = filter ?ok (take e1 ?ys)" "e1 \<le> length ?sorted"
    unfolding p1_def by (rule r1(1), rule r1(3), rule r1(5), rule r1(6))
  have t1: "rr_nodeType s1 = ?t" and i1: "rr_index s1 = rr_index s + e1"
    by (rule r1(8), rule r1(7))
  have same: "sortByID rt2 (getNodes ns2 ?t) = ?sorted"
    using sortsBy_unique[OF srt1 srt2 static ids] by simp
  let ?zs = "rotate (rr_index s1) ?sorted"
  define p2 where "p2 = charged out2"
  note r2 = RoundRobin_success[OF call2 res2]
  have p2: "mset hosts2 = mset (map GetAddr p2)"
      "p2 = take (nat replicaNum) (filter ?ok ?zs)"
    unfolding p2_def using r2(1) r2(4) by (simp_all add: t1 same)
  have zs: "?zs = rotate e1 ?ys" by (simp add: i1 rotate_rotate add.commute)
  have e1_le: "e1 \<le> length ?ys" using p1(4) by simp
  have "rotate e1 ?ys = drop e1 ?ys @ take e1 ?ys"
  proof (cases "e1 = length ?ys")
    case True
    then show ?thesis by simp
  next
    case False
    with e1_le have "e1 mod length ?ys = e1" by simp
    then show ?thesis by (metis rotate_drop_take)
  qed
  with zs have zs': "?zs = drop e1 ?ys @ take e1 ?ys" by simp
  have "filter ?ok ?ys = p1 @ filter ?ok (drop e1 ?ys)"
    unfolding p1(3) by (metis append_take_drop_id filter_append)
  then have "length (filter ?ok ?ys) = length p1 + length (filter ?ok (drop e1 ?ys))"
    by (metis length_append)
  with total writable p1(2) have rest: "nat replicaNum \<le> length (filter ?ok (drop e1 ?ys))"
    unfolding ok_eq by simp
  have "p2 = take (nat replicaNum) (filter ?ok (drop e1 ?ys) @ filter ?ok (take e1 ?ys))"
    unfolding p2(2) zs' by simp
  also have "\<dots> = take (nat replicaNum) (filter ?ok (drop e1 ?ys))"
    using rest by simp
  finally have p2_eq: "p2 = take (nat replicaNum) (filter ?ok (drop e1 ?ys))" .
  have "distinct (map GetAddr ?sorted)"
    by (rule mset_map_distinct[OF sortsBy_mset[OF srt1] addrs])
  then have dist_ys: "distinct (map GetAddr ?ys)"
    by (simp add: rotate_map[symmetric])
  have "map GetAddr ?ys = map GetAddr (take e1 ?ys) @ map GetAddr (drop e1 ?ys)"
    by (metis append_take_drop_id map_append)
  with dist_ys have dj: "set (map GetAddr (take e1 ?ys)) \<inter> set (map GetAddr (drop e1 ?ys)) = {}"
    by (metis distinct_append)
  have "set p2 \<subseteq> set (drop e1 ?ys)"
    unfolding p2_eq using set_take_subset[of "nat replicaNum" "filter ?ok (drop e1 ?ys)"] by auto
  then have s2: "set (map GetAddr p2) \<subseteq> set (map GetAddr (drop e1 ?ys))" by auto
  have "set p1 \<subseteq> set (take e1 ?ys)" unfolding p1(3) by auto
  then have s1: "set (map GetAddr p1) \<subseteq> set (map GetAddr (take e1 ?ys))" by auto
  have h1: "set hosts1 = set (map GetAddr p1)" using p1(1) by (metis set_mset_mset)
  have h2: "set hosts2 = set (map GetAddr p2)" using p2(1) by (metis set_mset_mset)
  from dj s1 s2 h1 h2 show ?thesis by blast
qed

lemma RoundRobin_eval_five_first:
  "RoundRobin_Select (testRuntime [3]) rrStart fiveNodesFourWritable [] 2 =
     (rrStart\<lparr>rr_index := 3\<rparr>,
      \<lparr>result = Inr ([''c'', ''a''], [(1, ''a''), (3, ''c'')]),
       charged = [DataNodePtr (mkDataNode 1 ''a'' 100 50 True),
                  DataNodePtr (mkDataNode 3 ''c'' 100 50 True)]\<rparr>, 3)"
  by (simp add: eval_defs fiveNodesFourWritable_def shuffle_swap del: shuffle.simps)

lemma RoundRobin_eval_five_second:
  "RoundRobin_Select (testRuntime []) (rrStart\<lparr>rr_index := 3\<rparr>) fiveNodesReordered [] 2 =
     (rrStart\<lparr>rr_index := 5\<rparr>,
      \<lparr>result = Inr ([''d'', ''e''], [(4, ''d''), (5, ''e'')]),
       charged = [DataNodePtr (mkDataNode 4 ''d'' 100 50 True),
                  DataNodePtr (mkDataNode 5 ''e'' 100 50 True)]\<rparr>, 2)"
  by (simp add: eval_defs fiveNodesReordered_def)

theorem RoundRobin_consecutive_disjoint_witness:
  "runtime_ok (testRuntime [3]) \<and> runtime_ok (testRuntime []) \<and>
   mset (getNodes fiveNodesReordered DataNodeDisk) = mset (getNodes fiveNodesFourWritable DataNodeDisk) \<and>
   distinct (map GetID (getNodes fiveNodesFourWritable DataNodeDisk)) \<and>
   distinct (map GetAddr (getNodes fiveNodesFourWritable DataNodeDisk)) \<and>
   2 * 2 \<le> int (length (filter (\<lambda>node. canAllocPartition node DataNodeDisk)
                          (getNodes fiveNodesFourWritable DataNodeDisk))) \<and>
   length (getNodes fiveNodesFourWritable DataNodeDisk) = 5 \<and>
   result (fst (snd (RoundRobin_Select (testRuntime [3]) rrStart fiveNodesFourWritable [] 2)))
     = Inr ([''c'', ''a''], [(1, ''a''), (3, ''c'')]) \<and>
   result (fst (snd (RoundRobin_Select (testRuntime [])
       (fst (RoundRobin_Select (testRuntime [3]) rrStart fiveNodesFourWritable [] 2))
       fiveNodesReordered [] 2)))
     = Inr ([''d'', ''e''], [(4, ''d''), (5, ''e'')]) \<and>
   set [''c'', ''a''] \<inter> set [''d'', ''e''] = {}"
proof -
  have t: "rr_nodeType rrStart = DataNodeDisk" by (simp add: rrStart_def)
  have st: "mset (getNodes fiveNodesReordered (rr_nodeType rrStart))
              = mset (getNodes fiveNodesFourWritable (rr_nodeType rrStart))"
    by (simp add: t fiveNodesFourWritable_def fiveNodesReordered_def dataSet_def)
  have ids: "distinct (map GetID (getNodes fiveNodesFourWritable (rr_nodeType rrStart)))"
    by (simp add: t fiveNodesFourWritable_def dataSet_def mkDataNode_def)
  have addrs: "distinct (map GetAddr (getNodes fiveNodesFourWritable (rr_nodeType rrStart)))"
    by (simp add: t fiveNodesFourWritable_def dataSet_def mkDataNode_def)
  have wr: "2 * 2 \<le> int (length (filter (\<lambda>node. canAllocPartition node (rr_nodeType rrStart))
                          (getNodes fiveNodesFourWritable (rr_nodeType rrStart))))"
    by (simp add: t fiveNodesFourWritable_def dataSet_def mkDataNode_def)
  have len: "length (getNodes fiveNodesFourWritable DataNodeDisk) = 5"
    by (simp add: fiveNodesFourWritable_def dataSet_def)
  have r1: "result \<lparr>result = Inr ([''c'', ''a''], [(1, ''a''), (3, ''c'')]),
       charged = [DataNodePtr (mkDataNode 1 ''a'' 100 50 True),
                  DataNodePtr (mkDataNode 3 ''c'' 100 50 True)]\<rparr>
       = Inr ([''c'', ''a''], [(1::uint64, ''a''), (3, ''c'')])" by simp
  have r2: "result \<lparr>result = Inr ([''d'', ''e''], [(4, ''d''), (5, ''e'')]),
       charged = [DataNodePtr (mkDataNode 4 ''d'' 100 50 True),
                  DataNodePtr (mkDataNode 5 ''e'' 100 50 True)]\<rparr>
       = Inr ([''d'', ''e''], [(4::uint64, ''d''), (5, ''e'')])" by simp
  from RoundRobin_consecutive_disjoint[OF runtime_ok_testRuntime runtime_ok_testRuntime
      st ids addrs wr RoundRobin_eval_five_first r1 RoundRobin_eval_five_second r2]
  have dj: "set [''c'', ''a''] \<inter> set [''d'', ''e''] = {}" .
  have c1: "result (fst (snd (RoundRobin_Select (testRuntime [3]) rrStart fiveNodesFourWritable [] 2)))
     = Inr ([''c'', ''a''], [(1, ''a''), (3, ''c'')])"
    by (simp add: RoundRobin_eval_five_first)
  have c2: "result (fst (snd (RoundRobin_Select (testRuntime [])
       (fst (RoundRobin_Select (testRuntime [3]) rrStart fiveNodesFourWritable [] 2))
       fiveNodesReordered [] 2)))
     = Inr ([''d'', ''e''], [(4, ''d''), (5, ''e'')])"
    by (simp add: RoundRobin_eval_five_first RoundRobin_eval_five_second)
  from st ids addrs wr len c1 c2 dj show ?thesis
    unfolding t using runtime_ok_testRuntime[of "[3]"] runtime_ok_testRuntime[of "[]"] by blast
qed

lemma RoundRobin_eval_skip:
  "RoundRobin_Select (testRuntime []) rrStart fourNodesTwoWritable [] 2 =
     (rrStart\<lparr>rr_index := 4\<rparr>,
      \<lparr>result = Inr ([''a'', ''d''], [(1, ''a''), (4, ''d'')]),
       charged = [DataNodePtr (mkDataNode 1 ''a'' 100 50 True),
                  DataNodePtr (mkDataNode 4 ''d'' 100 50 True)]\<rparr>, 4)"
  by (simp add: eval_defs fourNodesTwoWritable_def)

theorem RoundRobin_cursor_on_success_witness:
  "result (fst (snd (RoundRobin_Select (testRuntime []) rrStart fourNodesTwoWritable [] 2)))
     = Inr ([''a'', ''d''], [(1, ''a''), (4, ''d'')]) \<and>
   length (charged (fst (snd (RoundRobin_Select (testRuntime []) rrStart fourNodesTwoWritable [] 2)))) = 2 \<and>
   examinedUntil (selectable DataNodeDisk [])
      (rotate 0 (sortByID (testRuntime []) (getNodes fourNodesTwoWritable DataNodeDisk))) (nat 2) = 4 \<and>
   rr_index rrStart = 0 \<and>
   rr_index (fst (RoundRobin_Select (testRuntime []) rrStart fourNodesTwoWritable [] 2)) = 4"
proof -
  have r: "result \<lparr>result = Inr ([''a'', ''d''], [(1, ''a''), (4, ''d'')]),
       charged = [DataNodePtr (mkDataNode 1 ''a'' 100 50 True),
                  DataNodePtr (mkDataNode 4 ''d'' 100 50 True)]\<rparr>
       = Inr ([''a'', ''d''], [(1::uint64, ''a''), (4, ''d'')])" by simp
  have ex: "examinedUntil (selectable DataNodeDisk [])
      (rotate 0 (sortByID (testRuntime []) (getNodes fourNodesTwoWritable DataNodeDisk))) (nat 2) = 4"
  proof -
    have "sortByID (testRuntime []) (getNodes fourNodesTwoWritable DataNodeDisk) =
        map DataNodePtr [mkDataNode 1 ''a'' 100 50 True, mkDataNode 2 ''b'' 100 50 False,
              mkDataNode 3 ''c'' 100 50 False, mkDataNode 4 ''d'' 100 50 True]"
      by (simp add: testRuntime_def fourNodesTwoWritable_def dataSet_def mkDataNode_def
          word_le_nat_alt word_less_nat_alt)
    moreover have "nat 2 = Suc (Suc 0)" by simp
    ultimately show ?thesis
      by (simp only:) (simp add: selectable_def mkDataNode_def)
  qed
  have ex': "examinedUntil (selectable (rr_nodeType rrStart) [])
      (rotate (rr_index rrStart)
         (sortByID (testRuntime []) (getNodes fourNodesTwoWritable (rr_nodeType rrStart))))
      (nat 2) = 4"
    using ex by (simp add: rrStart_def)
  from RoundRobin_cursor_on_success[OF RoundRobin_eval_skip r]
  have "rr_index (rrStart\<lparr>rr_index := 4\<rparr>) = rr_index rrStart + 4"
    unfolding ex' by simp
  then have c5: "rr_index (fst (RoundRobin_Select (testRuntime []) rrStart fourNodesTwoWritable [] 2)) = 4"
    and c4: "rr_index rrStart = 0"
    by (simp_all add: RoundRobin_eval_skip)
  have c1: "result (fst (snd (RoundRobin_Select (testRuntime []) rrStart fourNodesTwoWritable [] 2)))
     = Inr ([''a'', ''d''], [(1, ''a''), (4, ''d'')])"
    and c2: "length (charged (fst (snd (RoundRobin_Select (testRuntime []) rrStart
                fourNodesTwoWritable [] 2)))) = 2"
    by (simp_all add: RoundRobin_eval_skip)
  from c1 c2 ex c4 c5 show ?thesis by blast
qed

subsection \<open>CarryWeight: the candidates and the call\<close>

lemma getCarryNodes_Cons:
  "getCarryNodes t c m ex (node # rest) =
     (if carryCandidate t ex node
      then (\<lparr>Carry = carryAt c (GetID node), Weight = carryWeight t node m, Ptr = node\<rparr>
              # fst (getCarryNodes t c m ex rest),
            if carryAt c (GetID node) \<ge> 1 then snd (getCarryNodes t c m ex rest) + 1
            else snd (getCarryNodes t c m ex rest))
      else getCarryNodes t c m ex rest)"
  by (simp add: case_prod_beta)

lemma getCarryNodes_Ptr:
  "map Ptr (fst (getCarryNodes t c m ex nodes)) = filter (carryCandidate t ex) nodes"
  by (induction nodes) (simp_all add: getCarryNodes_Cons del: getCarryNodes.simps(2))

lemma getCarryNodes_count:
  "snd (getCarryNodes t c m ex nodes)
     = length (filter (\<lambda>nt. Carry nt \<ge> 1) (fst (getCarryNodes t c m ex nodes)))"
  by (induction nodes) (simp_all add: getCarryNodes_Cons del: getCarryNodes.simps(2))


lemma getCarryNodes_eq:
  "getCarryNodes t c m ex nodes =
     (fst (getCarryNodes t c m ex nodes),
      length (filter (\<lambda>nt. Carry nt \<ge> 1) (fst (getCarryNodes t c m ex nodes))))"
  by (metis getCarryNodes_count prod.collapse)

lemma CarryWeight_Select_unfold:
  "CarryWeight_Select rt s ns excludeHosts replicaNum =
     (let nodes = getNodes ns (cw_nodeType s);
          totalMax = getTotalMax (cw_nodeType s) nodes;
          carry1 = prepareCarry (cw_nodeType s) (cw_carry s) nodes totalMax;
          weightedNodes = fst (getCarryNodes (cw_nodeType s) carry1 totalMax excludeHosts nodes);
          availCount = snd (getCarryNodes (cw_nodeType s) carry1 totalMax excludeHosts nodes)
      in
        if replicaNum = 0
        then Some (s\<lparr>cw_carry := carry1\<rparr>, \<lparr>result = Inr ([], []), charged = []\<rparr>)
        else if int (length weightedNodes) < replicaNum
        then Some (s\<lparr>cw_carry := carry1\<rparr>,
                   \<lparr>result = Inl (ErrNoEnoughWritableHosts replicaNum (length weightedNodes)),
                    charged = []\<rparr>)
        else
          case setNodeCarry carry1 weightedNodes (int availCount) replicaNum of
            None \<Rightarrow> None
          | Some r \<Rightarrow>
              Some (s\<lparr>cw_carry := foldl decreaseCarry (snd r)
                         (map Ptr (take (nat replicaNum) (sortByCarry rt (fst r))))\<rparr>,
                    reshuffled rt (map Ptr (take (nat replicaNum) (sortByCarry rt (fst r))))))"
  by (simp add: CarryWeight_Select_def Let_def case_prod_beta split: option.splits)

lemmas cw_defs = getTotalMax_def prepareCarry_def float64_def carryAt_def contains_def
  mkDataNode_def mkMetaNode_def dataSet_def word_le_nat_alt word_less_nat_alt


lemma CarryWeight_Select_returns:
  assumes "getCarryNodes (cw_nodeType s)
             (prepareCarry (cw_nodeType s) (cw_carry s) (getNodes ns (cw_nodeType s))
                (getTotalMax (cw_nodeType s) (getNodes ns (cw_nodeType s))))
             (getTotalMax (cw_nodeType s) (getNodes ns (cw_nodeType s))) excludeHosts
             (getNodes ns (cw_nodeType s)) = (w, k)"
    and "setNodeCarry (prepareCarry (cw_nodeType s) (cw_carry s) (getNodes ns (cw_nodeType s))
                (getTotalMax (cw_nodeType s) (getNodes ns (cw_nodeType s)))) w (int k) replicaNum
           = Some (w', c2)"
    and "replicaNum \<noteq> 0" and "\<not> int (length w) < replicaNum"
  shows "CarryWeight_Select rt s ns excludeHosts replicaNum =
           Some (s\<lparr>cw_carry := foldl decreaseCarry c2
                       (map Ptr (take (nat replicaNum) (sortByCarry rt w')))\<rparr>,
                 reshuffled rt (map Ptr (take (nat replicaNum) (sortByCarry rt w'))))"
  by (simp add: CarryWeight_Select_unfold Let_def assms)


lemma halfFree_candidates:
  "getCarryNodes (cw_nodeType cwStart)
     (prepareCarry (cw_nodeType cwStart) (cw_carry cwStart) (getNodes halfFree (cw_nodeType cwStart))
        (getTotalMax (cw_nodeType cwStart) (getNodes halfFree (cw_nodeType cwStart))))
     (getTotalMax (cw_nodeType cwStart) (getNodes halfFree (cw_nodeType cwStart))) []
     (getNodes halfFree (cw_nodeType cwStart))
   = ([halfHalf], 0)"
  by (simp add: halfFree_def halfHalf_def cwStart_def cw_defs)

lemma halfHalf_pass:
  "advanceCarry c [halfHalf] = ([halfHalf\<lparr>Carry := 1\<rparr>], c(1 \<mapsto> 1), 0)"
  by (simp add: Let_def halfHalf_def mkDataNode_def)

lemma halfHalf_pass2:
  "advanceCarry c [halfHalf\<lparr>Carry := 1\<rparr>] = ([halfHalf\<lparr>Carry := 3 / 2\<rparr>], c(1 \<mapsto> 3 / 2), 1)"
  by (simp add: Let_def halfHalf_def mkDataNode_def)

lemma halfHalf_loop:
  "setNodeCarry c [halfHalf] (int 0) 1 = Some ([halfHalf\<lparr>Carry := 3 / 2\<rparr>], c(1 \<mapsto> 3 / 2))"
  apply (subst setNodeCarry.simps)
  apply (simp only: halfHalf_pass)
  apply simp
  apply (subst setNodeCarry.simps)
  apply (simp only: halfHalf_pass2)
  apply simp
  apply (subst setNodeCarry.simps)
  apply simp
  done

lemma halfFree_Select:
  "CarryWeight_Select (testRuntime []) cwStart halfFree [] 1 =
     Some (cwStart\<lparr>cw_carry := foldl decreaseCarry ((prepareCarry (cw_nodeType cwStart)
              (cw_carry cwStart) (getNodes halfFree (cw_nodeType cwStart))
              (getTotalMax (cw_nodeType cwStart) (getNodes halfFree (cw_nodeType cwStart))))
              (1 \<mapsto> 3 / 2))
             (map Ptr (take (nat 1) (sortByCarry (testRuntime []) [halfHalf\<lparr>Carry := 3 / 2\<rparr>])))\<rparr>,
           reshuffled (testRuntime [])
             (map Ptr (take (nat 1) (sortByCarry (testRuntime []) [halfHalf\<lparr>Carry := 3 / 2\<rparr>]))))"
  by (rule CarryWeight_Select_returns[OF halfFree_candidates halfHalf_loop]) simp_all

text \<open>
  C5. The count taken while the list is built uses \<open>carry \<ge> 1.0\<close>; the recount of the
  advancement loop uses \<open>carry > 1.0\<close>. On one data node with total 2 and available space
  1 (carry 1/2, weight 1/2) and one replica: after the first pass the carry is exactly 1,
  one entry has a carry of at least 1.0 and the recount is 0, so the loop runs a second
  pass, to 3/2, and the call leaves the carry 1/2.
\<close>

theorem recount_threshold_differs:
  "snd (snd (advanceCarry Map.empty [halfHalf])) = 0 \<and>
   length (filter (\<lambda>nt. Carry nt \<ge> 1) (fst (advanceCarry Map.empty [halfHalf]))) = 1 \<and>
   map_option (map Carry \<circ> fst) (setNodeCarry Map.empty [halfHalf] 0 1) = Some [3 / 2] \<and>
   map_option (\<lambda>r. carryAt (cw_carry (fst r)) 1)
     (CarryWeight_Select (testRuntime []) cwStart halfFree [] 1) = Some (1 / 2)"
proof -
  have a: "snd (snd (advanceCarry Map.empty [halfHalf])) = 0"
    and b: "length (filter (\<lambda>nt. Carry nt \<ge> 1) (fst (advanceCarry Map.empty [halfHalf]))) = 1"
    by (simp_all add: halfHalf_pass del: advanceCarry.simps)
  have c: "map_option (map Carry \<circ> fst) (setNodeCarry Map.empty [halfHalf] 0 1) = Some [3 / 2]"
    using halfHalf_loop[of Map.empty] by simp
  have d: "map_option (\<lambda>r. carryAt (cw_carry (fst r)) 1)
     (CarryWeight_Select (testRuntime []) cwStart halfFree [] 1) = Some (1 / 2)"
    by (subst halfFree_Select)
       (simp add: testRuntime_def decreaseCarry_def carryAt_def halfHalf_def mkDataNode_def)
  from a b c d show ?thesis by simp
qed

subsection \<open>CarryWeight: when the call returns\<close>


lemma counted_live: "0 \<le> Weight nt \<Longrightarrow> 1 < Carry (advanced nt) \<Longrightarrow> live nt"
  by (auto simp: live_def advanced_def split: if_splits)




















subsection \<open>CarryWeight: the ceiling of the carry\<close>







end
